theory Spec2Isabelle
  imports Complex_Main "HOL-Library.Sublist"
begin

section \<open>JavaScript values\<close>

text \<open>
  A JavaScript string is a sequence of UTF-16 code units; a code unit is modelled as a
  natural number (below 65536), so that the characters of Chinese text count as one
  unit each, as they do for \<^verbatim>\<open>trim\<close>, \<^verbatim>\<open>replace\<close> and the regular-expression engine.
  ASCII literals are written with \<open>ascii\<close>.
\<close>

type_synonym jsstring = "nat list"

definition ascii :: "string \<Rightarrow> jsstring" where
  "ascii s = map of_char s"

text \<open>
  The values the function reads from its configuration, from the legacy term file and
  from the provider's message are strings or absent: \<open>Undefined\<close>, \<open>Null\<close> or a string,
  as the interfaces of the plugin give them.
\<close>

datatype jsval = Undefined | Null | Str jsstring

fun truthy :: "jsval \<Rightarrow> bool" where
  "truthy (Str s) = (s \<noteq> [])"
| "truthy Undefined = False"
| "truthy Null = False"

text \<open>The string a value contributes after a truthiness test succeeded.\<close>

fun str_of :: "jsval \<Rightarrow> jsstring" where
  "str_of (Str s) = s"
| "str_of Undefined = ascii ''undefined''"
| "str_of Null = ascii ''null''"

subsection \<open>String.prototype.trim\<close>

text \<open>White space and line terminators of ECMAScript, as code units.\<close>

definition is_space :: "nat \<Rightarrow> bool" where
  "is_space c \<longleftrightarrow>
     c = 9 \<or> c = 10 \<or> c = 11 \<or> c = 12 \<or> c = 13 \<or> c = 32 \<or> c = 160 \<or> c = 5760 \<or>
     (8192 \<le> c \<and> c \<le> 8202) \<or> c = 8232 \<or> c = 8233 \<or> c = 8239 \<or> c = 8287 \<or>
     c = 12288 \<or> c = 65279"

definition trim :: "jsstring \<Rightarrow> jsstring" where
  "trim s = rev (dropWhile is_space (rev (dropWhile is_space s)))"

subsection \<open>String.prototype.replace with a global literal pattern and an empty replacement\<close>

text \<open>
  \<^verbatim>\<open>s.replace(/<\|endofcontent\|>/g, '')\<close> scans from the left; at a match it drops the
  matched units and resumes after them, otherwise it keeps the unit and moves on.
\<close>

function replace_all :: "jsstring \<Rightarrow> jsstring \<Rightarrow> jsstring" where
  "replace_all pat [] = []"
| "replace_all pat (x # xs) =
     (if pat \<noteq> [] \<and> prefix pat (x # xs)
      then replace_all pat (drop (length pat - 1) xs)
      else x # replace_all pat xs)"
  by pat_completeness auto
termination
  by (relation "measure (\<lambda>(pat, s). length s)") auto

definition sentinel :: jsstring where
  "sentinel = ascii ''<|endofcontent|>''"


section \<open>TermMatcher: the regular expression built for a term\<close>

text \<open>
  The matcher escapes the term's spelling, wraps it in \<^verbatim>\<open>\b\<close> anchors and compiles the
  pattern with the flag \<^verbatim>\<open>i\<close> unless the term is case sensitive. The Unicode case
  tables of the runtime are not part of the repository; they are parameters.
\<close>

record unicode =
  toUpperCase :: "nat \<Rightarrow> jsstring"
  toLowerCase :: "jsstring \<Rightarrow> jsstring"

text \<open>The characters of the class \<^verbatim>\<open>[.*+?^${}()|[\]\\]\<close> that the source escapes.\<close>

definition is_special :: "nat \<Rightarrow> bool" where
  "is_special c \<longleftrightarrow> c \<in> set [46, 42, 43, 63, 94, 36, 123, 125, 40, 41, 124, 91, 93, 92]"

definition escapeRegExp :: "jsstring \<Rightarrow> jsstring" where
  "escapeRegExp source = concat (map (\<lambda>c. if is_special c then [92, c] else [c]) source)"

definition regexPattern :: "jsstring \<Rightarrow> jsstring" where
  "regexPattern source = [92, 98] @ escapeRegExp source @ [92, 98]"

text \<open>
  \<^verbatim>\<open>new RegExp(pattern, flags)\<close>, for the part of the pattern language that the escaped
  patterns are written in: the assertion \<^verbatim>\<open>\b\<close>, an escaped syntax character and a plain
  character. Any other pattern is reported as a failure (\<open>None\<close>), which sends the caller to
  its \<^verbatim>\<open>catch\<close> branch; \<open>compile_regexPattern\<close> below shows that no escaped pattern gets
  there.
\<close>

datatype atom = WordBoundary | Lit nat

fun compile :: "jsstring \<Rightarrow> atom list option" where
  "compile [] = Some []"
| "compile (c # cs) =
     (if c = 92 then
        (case cs of
           [] \<Rightarrow> None
         | d # ds \<Rightarrow>
             if d = 98 then map_option (\<lambda>r. WordBoundary # r) (compile ds)
             else if is_special d then map_option (\<lambda>r. Lit d # r) (compile ds)
             else None)
      else if is_special c then None
      else map_option (\<lambda>r. Lit c # r) (compile cs))"

text \<open>Word characters of \<^verbatim>\<open>\b\<close> without the \<^verbatim>\<open>u\<close> flag: \<^verbatim>\<open>[A-Za-z0-9_]\<close>.\<close>

definition is_word :: "nat \<Rightarrow> bool" where
  "is_word c \<longleftrightarrow> (48 \<le> c \<and> c \<le> 57) \<or> (65 \<le> c \<and> c \<le> 90) \<or> (97 \<le> c \<and> c \<le> 122) \<or> c = 95"

text \<open>
  Canonicalize of the regular-expression semantics (no \<^verbatim>\<open>u\<close> flag): with \<^verbatim>\<open>i\<close>, a code
  unit is compared by its upper-case form, unless that form is not a single unit or would
  turn a non-ASCII unit into an ASCII one.
\<close>

definition canonicalize :: "unicode \<Rightarrow> bool \<Rightarrow> nat \<Rightarrow> nat" where
  "canonicalize U ignoreCase ch =
     (if \<not> ignoreCase then ch
      else if ch < 128 then (if 97 \<le> ch \<and> ch \<le> 122 then ch - 32 else ch)
      else (case toUpperCase U ch of
              [cu] \<Rightarrow> if cu < 128 then ch else cu
            | _ \<Rightarrow> ch))"

text \<open>
  A position in the text is given by the unit before it (if any) and the units from it
  on. \<^verbatim>\<open>\b\<close> holds where exactly one of the two neighbours is a word character.
\<close>

definition word_before :: "nat option \<Rightarrow> bool" where
  "word_before prev = (case prev of None \<Rightarrow> False | Some c \<Rightarrow> is_word c)"

definition word_after :: "jsstring \<Rightarrow> bool" where
  "word_after rest = (case rest of [] \<Rightarrow> False | c # _ \<Rightarrow> is_word c)"

definition at_boundary :: "nat option \<Rightarrow> jsstring \<Rightarrow> bool" where
  "at_boundary prev rest \<longleftrightarrow> word_before prev \<noteq> word_after rest"

fun match_here :: "unicode \<Rightarrow> bool \<Rightarrow> atom list \<Rightarrow> nat option \<Rightarrow> jsstring \<Rightarrow> bool" where
  "match_here U ic [] prev rest = True"
| "match_here U ic (WordBoundary # ps) prev rest =
     (at_boundary prev rest \<and> match_here U ic ps prev rest)"
| "match_here U ic (Lit c # ps) prev [] = False"
| "match_here U ic (Lit c # ps) prev (x # xs) =
     (canonicalize U ic x = canonicalize U ic c \<and> match_here U ic ps (Some x) xs)"

text \<open>\<^verbatim>\<open>regex.test(text)\<close> of a fresh, non-global expression: every start index is tried.\<close>

fun search :: "unicode \<Rightarrow> bool \<Rightarrow> atom list \<Rightarrow> nat option \<Rightarrow> jsstring \<Rightarrow> bool" where
  "search U ic ps prev [] = match_here U ic ps prev []"
| "search U ic ps prev (x # xs) =
     (match_here U ic ps prev (x # xs) \<or> search U ic ps (Some x) xs)"

definition regex_test :: "unicode \<Rightarrow> bool \<Rightarrow> atom list \<Rightarrow> jsstring \<Rightarrow> bool" where
  "regex_test U ic ps text = search U ic ps None text"

text \<open>\<^verbatim>\<open>text.includes(source)\<close>.\<close>

fun js_includes :: "jsstring \<Rightarrow> jsstring \<Rightarrow> bool" where
  "js_includes [] source = (source = [])"
| "js_includes (x # xs) source = (prefix source (x # xs) \<or> js_includes xs source)"

text \<open>
  A row of the table \<^verbatim>\<open>terms\<close> as \<^verbatim>\<open>SELECT source, target, case_sensitive\<close> returns it.
  The column \<^verbatim>\<open>case_sensitive\<close> is an integer or NULL; the source reads the flag as set
  when the value is \<^verbatim>\<open>1\<close>.
\<close>

record term_row =
  source :: jsstring
  target :: jsstring
  case_sensitive :: "int option"

definition isMatch :: "unicode \<Rightarrow> term_row \<Rightarrow> jsstring \<Rightarrow> bool" where
  "isMatch U term text =
     (let caseSensitive = (case_sensitive term = Some 1) in
      case compile (regexPattern (source term)) of
        Some regex \<Rightarrow> regex_test U (\<not> caseSensitive) regex text
      | None \<Rightarrow>
          if caseSensitive then js_includes text (source term)
          else js_includes (toLowerCase U text) (toLowerCase U (source term)))"

text \<open>The loop over \<^verbatim>\<open>allTerms\<close>, pushing each matching term onto \<^verbatim>\<open>matchedTerms\<close>.\<close>

fun match_loop ::
  "unicode \<Rightarrow> jsstring \<Rightarrow> term_row list \<Rightarrow> (jsstring \<times> jsstring) list \<Rightarrow> (jsstring \<times> jsstring) list" where
  "match_loop U text [] matchedTerms = matchedTerms"
| "match_loop U text (term # rest) matchedTerms =
     match_loop U text rest
       (if isMatch U term text then matchedTerms @ [(source term, target term)]
        else matchedTerms)"


section \<open>RequestBuilder: the temperature\<close>

text \<open>
  A Number is \<open>NaN\<close>, an infinity or a finite double, given by its exact value (the two
  zeros are one value here: both are falsy, both are in the range, and both are sent as 0).
\<close>

datatype jsnum = NaN | Infinity bool | Num real

text \<open>
  The Number value of a real, as the language defines it for a decimal literal and for
  \<^verbatim>\<open>parseFloat\<close>: the nearest double, a tie going to the even significand; an infinity
  when that rounding reaches \<open>2 ^ 1024\<close>. \<open>binade a\<close> is the exponent \<open>e\<close> with \<open>2 ^ e \<le> a < 2 ^ (e + 1)\<close>, kept
  between -1022 (the subnormal values) and 1024 (overflow); the doubles of that binade are
  the multiples of \<open>2 ^ (e - 52)\<close>.
\<close>

fun halvings :: "nat \<Rightarrow> real \<Rightarrow> nat" where
  "halvings 0 x = 0"
| "halvings (Suc k) x = (if 2 \<le> x then Suc (halvings k (x / 2)) else 0)"

fun doublings :: "nat \<Rightarrow> real \<Rightarrow> nat" where
  "doublings 0 x = 0"
| "doublings (Suc k) x = (if x < 1 then Suc (doublings k (2 * x)) else 0)"

definition binade :: "real \<Rightarrow> int" where
  "binade a = (if 1 \<le> a then int (halvings 1024 a) else - int (doublings 1022 a))"

definition pow2 :: "int \<Rightarrow> real" where
  "pow2 q = (if 0 \<le> q then 2 ^ nat q else 1 / 2 ^ nat (- q))"

definition round_half_even :: "real \<Rightarrow> int" where
  "round_half_even r =
     (let f = \<lfloor>r\<rfloor>; d = r - of_int f in
      if d < 1 / 2 then f else if 1 / 2 < d then f + 1 else if even f then f else f + 1)"

definition round_at :: "int \<Rightarrow> real \<Rightarrow> real" where
  "round_at q a = of_int (round_half_even (a / pow2 q)) * pow2 q"

definition binary64 :: "real \<Rightarrow> jsnum" where
  "binary64 x =
     (let v = round_at (binade \<bar>x\<bar> - 52) \<bar>x\<bar> in
      if 2 ^ 1024 \<le> v then Infinity (x < 0) else Num (if x < 0 then - v else v))"

definition is_digit :: "nat \<Rightarrow> bool" where
  "is_digit c \<longleftrightarrow> 48 \<le> c \<and> c \<le> 57"

definition digits_value :: "jsstring \<Rightarrow> nat" where
  "digits_value ds = foldl (\<lambda>n c. 10 * n + (c - 48)) 0 ds"

text \<open>The sign of a literal: whether it is negative, and the units after the sign.\<close>

definition read_sign :: "jsstring \<Rightarrow> bool \<times> jsstring" where
  "read_sign s =
     (case s of
        [] \<Rightarrow> (False, [])
      | c # r \<Rightarrow> if c = 45 then (True, r) else if c = 43 then (False, r) else (False, s))"

text \<open>The value of an exponent part at the head of \<open>s\<close>, 0 when there is none.\<close>

definition read_exponent :: "jsstring \<Rightarrow> int" where
  "read_exponent s =
     (case s of
        [] \<Rightarrow> 0
      | c # r \<Rightarrow>
          if c = 101 \<or> c = 69 then
            (let (neg, r') = read_sign r; ds = takeWhile is_digit r' in
             if ds = [] then 0
             else if neg then - int (digits_value ds) else int (digits_value ds))
          else 0)"

text \<open>
  \<^verbatim>\<open>parseFloat\<close>: the argument is converted to a string, leading white space is skipped,
  and the longest prefix that is a decimal literal gives the value, rounded to a double;
  \<open>NaN\<close> when no prefix is one.
\<close>

definition parseFloat :: "jsval \<Rightarrow> jsnum" where
  "parseFloat v =
     (let (neg, s) = read_sign (dropWhile is_space (str_of v)) in
      if prefix (ascii ''Infinity'') s then Infinity neg
      else
        let ip = takeWhile is_digit s;
            r1 = dropWhile is_digit s;
            fp = (case r1 of [] \<Rightarrow> [] | c # r \<Rightarrow> if c = 46 then takeWhile is_digit r else []);
            r2 = (case r1 of [] \<Rightarrow> [] | c # r \<Rightarrow> if c = 46 then dropWhile is_digit r else r1)
        in
          if ip = [] \<and> fp = [] then NaN
          else
            let m = real (digits_value (ip @ fp)) / 10 ^ length fp;
                e = read_exponent r2;
                x = (if 0 \<le> e then m * 10 ^ nat e else m / 10 ^ nat (- e))
            in binary64 (if neg then - x else x))"

text \<open>The operand test of \<^verbatim>\<open>||\<close> on a Number: \<open>NaN\<close> and zero are falsy.\<close>

definition falsy_num :: "jsnum \<Rightarrow> bool" where
  "falsy_num n \<longleftrightarrow> n = NaN \<or> n = Num 0"

text \<open>\<^verbatim>\<open>parseFloat(temperature) || 0.65\<close>, as the database variants of the plugin write it.\<close>

definition temperature_of :: "jsval \<Rightarrow> jsnum" where
  "temperature_of temperature =
     (if falsy_num (parseFloat temperature) then binary64 0.65 else parseFloat temperature)"

text \<open>
  The variant of the plugin without the stores checks the range instead: the parsed value
  is kept when it is a number in \<open>[0, 2)\<close>, and 0.65 is sent otherwise.
\<close>

definition in_range :: "jsnum \<Rightarrow> bool" where
  "in_range n = (case n of Num x \<Rightarrow> 0 \<le> x \<and> x < 2 | Infinity neg \<Rightarrow> False | NaN \<Rightarrow> False)"

definition temperature_clamped :: "jsval \<Rightarrow> jsnum" where
  "temperature_clamped temperature =
     (if temperature \<noteq> Undefined \<and> temperature \<noteq> Null \<and> temperature \<noteq> Str [] then
        (let tempValue = parseFloat temperature in
         if tempValue \<noteq> NaN \<and> in_range tempValue then tempValue else binary64 0.65)
      else binary64 0.65)"


section \<open>Collaborators: configuration, stores, file system, remote call, logger\<close>

record config =
  model :: jsval
  apiKey :: jsval
  domains :: jsval
  temperature :: jsval
  termsFile :: jsval
  databaseFile :: jsval
  forceOnline :: jsval

text \<open>
  The statements the function sends to a store. A store file holds the two tables; a table
  that was never created is the empty table, since each table is created before it is
  used (\<^verbatim>\<open>CREATE TABLE IF NOT EXISTS\<close>).
\<close>

datatype stmt =
    CreateTranslations
  | SelectTranslation jsstring jsstring jsstring
  | ReplaceTranslation jsstring jsstring jsstring jsstring
  | CreateTerms
  | InsertTerm jsstring jsstring
  | SelectTerms

record sqlite =
  translations_tbl :: "jsstring \<times> jsstring \<times> jsstring \<rightharpoonup> jsstring"
  terms_tbl :: "term_row list"

text \<open>
  The effect of a statement that succeeds. \<^verbatim>\<open>INSERT OR REPLACE\<close> overwrites the row of the
  key (unique on the three columns); \<^verbatim>\<open>INSERT OR IGNORE\<close> appends a row with the default
  flag 0 unless a row of that source exists (unique on \<^verbatim>\<open>source\<close>).
\<close>

fun run_stmt :: "stmt \<Rightarrow> sqlite \<Rightarrow> sqlite" where
  "run_stmt (ReplaceTranslation text fromL toL translation) db =
     db\<lparr>translations_tbl := (translations_tbl db)((text, fromL, toL) \<mapsto> translation)\<rparr>"
| "run_stmt (InsertTerm src tgt) db =
     (if src \<in> set (map source (terms_tbl db)) then db
      else db\<lparr>terms_tbl := terms_tbl db @ [\<lparr>source = src, target = tgt, case_sensitive = Some 0\<rparr>]\<rparr>)"
| "run_stmt CreateTranslations db = db"
| "run_stmt (SelectTranslation text fromL toL) db = db"
| "run_stmt CreateTerms db = db"
| "run_stmt SelectTerms db = db"

text \<open>An entry of the legacy term file: the properties \<^verbatim>\<open>source\<close> and \<^verbatim>\<open>target\<close> of an object.\<close>

datatype legacy_term = LegacyTerm (legacy_source: jsval) (legacy_target: jsval)

text \<open>What \<^verbatim>\<open>JSON.parse\<close> returned, as far as \<^verbatim>\<open>Array.isArray\<close> and the loop read it.\<close>

datatype parsed = NotArray | Array "legacy_term list"

text \<open>The body of a response, as far as \<^verbatim>\<open>result?.choices?.[0]?.message?.content\<close> reads it.\<close>

record message =
  content :: jsval

record choice =
  message :: "message option"

record body =
  choices :: "choice option list option"

record response =
  ok :: bool
  status :: nat
  data :: "body option"

text \<open>The payload of the POST request and the key of its authorization header.\<close>

record request =
  req_apiKey :: jsval
  req_model :: jsval
  req_content :: jsstring
  req_source_lang :: jsstring
  req_target_lang :: jsstring
  req_temperature :: jsnum
  req_terms :: "(jsstring \<times> jsstring) list option"
  req_domains :: "jsval option"

text \<open>The messages of the logger, by the place that writes them.\<close>

datatype msg =
    PathConfigured jsstring
  | CacheHitMsg
  | CacheMiss
  | ForcedOnline
  | DatabaseError
  | TermsCheckFailed
  | JsonDetected nat
  | TermsConnectFailed
  | MigrationStarted
  | Migrated nat
  | TermsReady
  | TermsUnavailable
  | TermsInitFailed
  | TermsLoaded nat
  | TermsMatched nat
  | TermsMatchFailed
  | OnlineApi
  | CacheStored
  | CacheWriteFailed
  | ApiFailed nat "body option"

text \<open>What a call does to its collaborators, in order.\<close>

datatype event =
    Info msg
  | Warn msg
  | Error msg
  | Load jsstring
  | Exec jsstring stmt
  | Exists jsstring
  | ReadTextFile jsstring
  | Fetch request

text \<open>
  The world a call runs in: the utilities it is given and how they behave (\<open>None\<close> and
  a set failure flag stand for a rejected promise or a thrown exception), the content of
  the store files, and the trace of what was done so far. The logger does not fail.
\<close>

record world =
  cacheDir :: jsstring
  join :: "(jsstring \<Rightarrow> jsstring \<Rightarrow> jsstring option) option"
  exists :: "jsstring \<Rightarrow> bool option"
  readTextFile :: "jsstring \<Rightarrow> jsstring option"
  json_parse :: "jsstring \<Rightarrow> parsed option"
  load_fails :: "jsstring \<Rightarrow> bool"
  exec_fails :: "jsstring \<Rightarrow> stmt \<Rightarrow> bool"
  fetch :: "request \<Rightarrow> response option"
  stores :: "jsstring \<Rightarrow> sqlite"
  trace :: "event list"

definition emit :: "event \<Rightarrow> world \<Rightarrow> world" where
  "emit e w = w\<lparr>trace := trace w @ [e]\<rparr>"

text \<open>\<^verbatim>\<open>Database.load\<close>: whether a handle was returned.\<close>

definition Database_load :: "jsstring \<Rightarrow> world \<Rightarrow> bool \<times> world" where
  "Database_load db w = (\<not> load_fails w db, emit (Load db) w)"

text \<open>\<^verbatim>\<open>db.execute\<close>: whether the statement succeeded; the store changes only when it did.\<close>

definition execute :: "jsstring \<Rightarrow> stmt \<Rightarrow> world \<Rightarrow> bool \<times> world" where
  "execute db st w =
     (if exec_fails w db st then (False, emit (Exec db st) w)
      else (True, emit (Exec db st) (w\<lparr>stores := (stores w)(db := run_stmt st (stores w db))\<rparr>)))"

text \<open>
  \<^verbatim>\<open>db.select\<close> on the table of translations: \<open>None\<close> when it throws, else the
  \<^verbatim>\<open>translated_text\<close> of the first row, if there is a row.
\<close>

definition select_translation ::
  "jsstring \<Rightarrow> jsstring \<Rightarrow> jsstring \<Rightarrow> jsstring \<Rightarrow> world \<Rightarrow> jsstring option option \<times> world" where
  "select_translation db text fromL toL w =
     (if exec_fails w db (SelectTranslation text fromL toL)
      then (None, emit (Exec db (SelectTranslation text fromL toL)) w)
      else (Some (translations_tbl (stores w db) (text, fromL, toL)),
            emit (Exec db (SelectTranslation text fromL toL)) w))"

definition select_terms :: "jsstring \<Rightarrow> world \<Rightarrow> term_row list option \<times> world" where
  "select_terms db w =
     (if exec_fails w db SelectTerms then (None, emit (Exec db SelectTerms) w)
      else (Some (terms_tbl (stores w db)), emit (Exec db SelectTerms) w))"


section \<open>The function translate\<close>

subsection \<open>PathResolver\<close>

text \<open>
  \<^verbatim>\<open>resolvePath\<close>: \<open>None\<close> when \<^verbatim>\<open>join\<close> rejects, else the path (\<open>Null\<close> for an empty name).
  A name with a slash or a backslash is returned as it is, with a warning.
\<close>

definition resolvePath :: "jsval \<Rightarrow> world \<Rightarrow> jsval option \<times> world" where
  "resolvePath fileName w =
     (if \<not> truthy fileName then (Some Null, w)
      else if 47 \<in> set (str_of fileName) \<or> 92 \<in> set (str_of fileName)
        then (Some fileName, emit (Warn (PathConfigured (str_of fileName))) w)
      else (case join w of
              Some j \<Rightarrow> (map_option Str (j (cacheDir w) (str_of fileName)), w)
            | None \<Rightarrow> (Some (Str (cacheDir w @ [47] @ str_of fileName)), w)))"

text \<open>The connection string \<^verbatim>\<open>`sqlite:${path}`\<close>; it names the store and its handle.\<close>

definition db_url :: "jsval \<Rightarrow> jsstring" where
  "db_url path = ascii ''sqlite:'' @ str_of path"

text \<open>The guard \<^verbatim>\<open>file && file.trim() !== ''\<close> of the two store sections.\<close>

definition configured :: "jsval \<Rightarrow> bool" where
  "configured file \<longleftrightarrow> truthy file \<and> trim (str_of file) \<noteq> []"

definition forceOnlineBool :: "config \<Rightarrow> bool" where
  "forceOnlineBool cfg \<longleftrightarrow> forceOnline cfg = Str (ascii ''true'')"

subsection \<open>CacheStore: opening and reading\<close>

text \<open>
  The section ends the call with the cached text, or hands over to the online part with
  the handle \<^verbatim>\<open>db\<close> (\<open>None\<close> for \<^verbatim>\<open>null\<close>). The handle is assigned as soon as the store is
  loaded, so it stays set when the table creation or the query throws afterwards.
\<close>

datatype cache_result = CacheHit jsstring | Online "jsstring option"

definition cache_lookup ::
  "config \<Rightarrow> jsstring \<Rightarrow> jsstring \<Rightarrow> jsstring \<Rightarrow> world \<Rightarrow> cache_result \<times> world" where
  "cache_lookup cfg text fromL toL w =
     (if configured (databaseFile cfg) then
        (case resolvePath (databaseFile cfg) w of
           (None, w1) \<Rightarrow> (Online None, emit (Warn DatabaseError) w1)
         | (Some fullDbPath, w1) \<Rightarrow>
             let db = db_url fullDbPath;
                 (loaded, w2) = Database_load db w1
             in if \<not> loaded then (Online None, emit (Warn DatabaseError) w2)
                else
                  let (created, w3) = execute db CreateTranslations w2
                  in if \<not> created then (Online (Some db), emit (Warn DatabaseError) w3)
                     else if \<not> forceOnlineBool cfg then
                       (case select_translation db text fromL toL w3 of
                          (None, w4) \<Rightarrow> (Online (Some db), emit (Warn DatabaseError) w4)
                        | (Some (Some cachedTranslation), w4) \<Rightarrow>
                            (CacheHit cachedTranslation, emit (Info CacheHitMsg) w4)
                        | (Some None, w4) \<Rightarrow> (Online (Some db), emit (Info CacheMiss) w4))
                     else (Online (Some db), emit (Info ForcedOnline) w3))
      else (Online None, w))"

subsection \<open>TermStore: loading and migration\<close>

definition check_exists :: "jsstring \<Rightarrow> world \<Rightarrow> bool \<times> world" where
  "check_exists path w =
     (case exists w path of
        None \<Rightarrow> (False, emit (Warn TermsCheckFailed) (emit (Exists path) w))
      | Some fileExists \<Rightarrow> (fileExists, emit (Exists path) w))"

text \<open>
  Reading the file as a legacy array: \<^verbatim>\<open>needMigration\<close> and \<^verbatim>\<open>jsonTerms\<close>. A read or parse
  error is caught by an empty handler.
\<close>

definition read_legacy :: "jsstring \<Rightarrow> world \<Rightarrow> (bool \<times> legacy_term list) \<times> world" where
  "read_legacy path w =
     (let w1 = emit (ReadTextFile path) w in
      case readTextFile w path of
        None \<Rightarrow> ((False, []), w1)
      | Some fileContent \<Rightarrow>
          (case json_parse w fileContent of
             None \<Rightarrow> ((False, []), w1)
           | Some NotArray \<Rightarrow> ((False, []), w1)
           | Some (Array jsonTerms) \<Rightarrow>
               ((True, jsonTerms), emit (Info (JsonDetected (length jsonTerms))) w1)))"

text \<open>
  The migration loop with its counter. An insert that throws is caught by an empty handler
  and not counted.
\<close>

fun migrate :: "jsstring \<Rightarrow> legacy_term list \<Rightarrow> nat \<Rightarrow> world \<Rightarrow> nat \<times> world" where
  "migrate termsDb [] migratedCount w = (migratedCount, w)"
| "migrate termsDb (t # ts) migratedCount w =
     (if truthy (legacy_source t) \<and> truthy (legacy_target t) then
        (let (inserted, w1) =
               execute termsDb (InsertTerm (str_of (legacy_source t)) (str_of (legacy_target t))) w
         in migrate termsDb ts (if inserted then Suc migratedCount else migratedCount) w1)
      else migrate termsDb ts migratedCount w)"

text \<open>Steps 4.1 and 4.2: whether the file exists, and whether it is a legacy array.\<close>

definition detect_legacy :: "jsstring \<Rightarrow> world \<Rightarrow> (bool \<times> legacy_term list) \<times> world" where
  "detect_legacy path w =
     (let (fileExists, w1) = check_exists path w in
      if fileExists then read_legacy path w1 else ((False, []), w1))"

text \<open>
  Steps 4.3 to 4.5: connecting to the store, creating the table, migrating. The result is
  the handle \<^verbatim>\<open>termsDb\<close> (\<open>None\<close> for \<^verbatim>\<open>null\<close>): a failed connection is caught on the spot,
  a failed table creation by the handler of the whole section, which resets the handle.
\<close>

definition open_terms ::
  "jsstring \<Rightarrow> bool \<Rightarrow> legacy_term list \<Rightarrow> world \<Rightarrow> jsstring option \<times> world" where
  "open_terms termsDb needMigration jsonTerms w =
     (let (loaded, w1) = Database_load termsDb w in
      if loaded then
        (let (created, w2) = execute termsDb CreateTerms w1 in
         if created then
           (let w3 =
              (if needMigration \<and> jsonTerms \<noteq> [] then
                 (let (migratedCount, w') =
                        migrate termsDb jsonTerms 0 (emit (Info MigrationStarted) w2)
                  in emit (Info (Migrated migratedCount)) w')
               else w2)
            in (Some termsDb, emit (Info TermsReady) w3))
         else (None, emit (Warn TermsInitFailed) w2))
      else
        (let w2 = emit (Warn TermsConnectFailed) w1 in
         (None, if needMigration then emit (Warn TermsUnavailable) w2 else w2)))"

text \<open>The section as a whole.\<close>

definition load_terms :: "config \<Rightarrow> world \<Rightarrow> jsstring option \<times> world" where
  "load_terms cfg w =
     (if configured (termsFile cfg) then
        (case resolvePath (termsFile cfg) w of
           (None, w1) \<Rightarrow> (None, emit (Warn TermsInitFailed) w1)
         | (Some fullTermsPath, w1) \<Rightarrow>
             let ((needMigration, jsonTerms), w2) = detect_legacy (str_of fullTermsPath) w1
             in open_terms (db_url fullTermsPath) needMigration jsonTerms w2)
      else (None, w))"

subsection \<open>TermMatcher: reading the store\<close>

definition match_terms ::
  "unicode \<Rightarrow> jsstring option \<Rightarrow> jsstring \<Rightarrow> world \<Rightarrow> (jsstring \<times> jsstring) list \<times> world" where
  "match_terms U termsDb text w =
     (case termsDb of
        None \<Rightarrow> ([], w)
      | Some db \<Rightarrow>
          (case select_terms db w of
             (None, w1) \<Rightarrow> ([], emit (Warn TermsMatchFailed) w1)
           | (Some allTerms, w1) \<Rightarrow>
               let matchedTerms = match_loop U text allTerms []
               in (matchedTerms,
                   emit (Info (TermsMatched (length matchedTerms)))
                     (emit (Info (TermsLoaded (length allTerms))) w1))))"

subsection \<open>RequestBuilder\<close>

definition build_request ::
  "config \<Rightarrow> jsstring \<Rightarrow> jsstring \<Rightarrow> jsstring \<Rightarrow> (jsstring \<times> jsstring) list \<Rightarrow> request" where
  "build_request cfg text fromL toL matched =
     \<lparr>req_apiKey = apiKey cfg,
      req_model = (if model cfg = Undefined then Str (ascii ''qwen-mt-flash'') else model cfg),
      req_content = text,
      req_source_lang = fromL,
      req_target_lang = toL,
      req_temperature = temperature_of (temperature cfg),
      req_terms = (if matched \<noteq> [] then Some matched else None),
      req_domains = (if truthy (domains cfg) then Some (domains cfg) else None)\<rparr>"

subsection \<open>ResponseNormalizer\<close>

text \<open>\<^verbatim>\<open>result?.choices?.[0]?.message?.content\<close>.\<close>

definition content_of :: "body option \<Rightarrow> jsval" where
  "content_of result =
     (case result of
        None \<Rightarrow> Undefined
      | Some b \<Rightarrow>
          (case choices b of
             None \<Rightarrow> Undefined
           | Some cs \<Rightarrow>
               (case cs of
                  [] \<Rightarrow> Undefined
                | c # _ \<Rightarrow>
                    (case c of
                       None \<Rightarrow> Undefined
                     | Some ch \<Rightarrow>
                         (case message ch of
                            None \<Rightarrow> Undefined
                          | Some m \<Rightarrow> content m)))))"

definition normalize_response :: "body option \<Rightarrow> jsstring" where
  "normalize_response result =
     (let translation = (if truthy (content_of result) then str_of (content_of result) else [])
      in trim (replace_all sentinel translation))"

subsection \<open>CacheStore: writing back\<close>

definition write_back ::
  "jsstring option \<Rightarrow> jsstring \<Rightarrow> jsstring \<Rightarrow> jsstring \<Rightarrow> jsstring \<Rightarrow> world \<Rightarrow> world" where
  "write_back db text fromL toL translation w =
     (case db of
        None \<Rightarrow> w
      | Some h \<Rightarrow>
          if translation \<noteq> [] then
            (let (stored, w1) = execute h (ReplaceTranslation text fromL toL translation) w in
             if stored then emit (Info CacheStored) w1 else emit (Warn CacheWriteFailed) w1)
          else w)"

subsection \<open>TranslationOrchestrator\<close>

text \<open>
  What the call throws: the message built from the status and the body of a response
  that is not ok, or the rejection of \<^verbatim>\<open>fetch\<close> itself.
\<close>

datatype error = ApiError nat "body option" | FetchRejected

text \<open>Sections 4 to 6 of the function: terms, request, remote call, response, write-back.\<close>

definition prepare ::
  "unicode \<Rightarrow> config \<Rightarrow> jsstring \<Rightarrow> jsstring \<Rightarrow> jsstring \<Rightarrow> world \<Rightarrow> request \<times> world" where
  "prepare U cfg text fromL toL w =
     (let (termsDb, w1) = load_terms cfg w;
          (matched, w2) = match_terms U termsDb text w1
      in (build_request cfg text fromL toL matched, w2))"

definition online ::
  "unicode \<Rightarrow> config \<Rightarrow> jsstring \<Rightarrow> jsstring \<Rightarrow> jsstring \<Rightarrow> jsstring option \<Rightarrow> world
     \<Rightarrow> (error + jsstring) \<times> world" where
  "online U cfg text fromL toL db w =
     (let (req, w2) = prepare U cfg text fromL toL w;
          w3 = emit (Fetch req) w2
      in case fetch w3 req of
           None \<Rightarrow> (Inl FetchRejected, w3)
         | Some res \<Rightarrow>
             if ok res then
               (let translation = normalize_response (data res)
                in (Inr translation,
                    write_back db text fromL toL translation (emit (Info OnlineApi) w3)))
             else (Inl (ApiError (status res) (data res)),
                   emit (Error (ApiFailed (status res) (data res))) w3))"

definition translate ::
  "unicode \<Rightarrow> jsstring \<Rightarrow> jsstring \<Rightarrow> jsstring \<Rightarrow> config \<Rightarrow> world \<Rightarrow> (error + jsstring) \<times> world" where
  "translate U text fromL toL cfg w =
     (case cache_lookup cfg text fromL toL w of
        (CacheHit cachedTranslation, w1) \<Rightarrow> (Inr cachedTranslation, w1)
      | (Online db, w1) \<Rightarrow> online U cfg text fromL toL db w1)"

section \<open>Observing a call\<close>

text \<open>The requests sent to the provider so far, oldest first.\<close>

fun fetched :: "event \<Rightarrow> request list" where
  "fetched (Fetch req) = [req]"
| "fetched (Info m) = []"
| "fetched (Warn m) = []"
| "fetched (Error m) = []"
| "fetched (Load db) = []"
| "fetched (Exec db st) = []"
| "fetched (Exists path) = []"
| "fetched (ReadTextFile path) = []"

definition requests :: "world \<Rightarrow> request list" where
  "requests w = concat (map fetched (trace w))"

text \<open>The events of a call that took the world from \<open>w\<close> to \<open>w'\<close>.\<close>

definition events_since :: "world \<Rightarrow> world \<Rightarrow> event list" where
  "events_since w w' = drop (length (trace w)) (trace w')"

text \<open>The request that the call builds when it does not end at the cache.\<close>

definition request_of ::
  "unicode \<Rightarrow> jsstring \<Rightarrow> jsstring \<Rightarrow> jsstring \<Rightarrow> config \<Rightarrow> world \<Rightarrow> request" where
  "request_of U text fromL toL cfg w =
     fst (prepare U cfg text fromL toL (snd (cache_lookup cfg text fromL toL w)))"

text \<open>What the call returns for an answer of \<^verbatim>\<open>fetch\<close>.\<close>

definition outcome :: "response option \<Rightarrow> error + jsstring" where
  "outcome answer =
     (case answer of
        None \<Rightarrow> Inl FetchRejected
      | Some res \<Rightarrow>
          if ok res then Inr (normalize_response (data res))
          else Inl (ApiError (status res) (data res)))"

text \<open>The utilities behave in \<open>w'\<close> as they do in \<open>w\<close>.\<close>

definition same_env :: "world \<Rightarrow> world \<Rightarrow> bool" where
  "same_env w w' \<longleftrightarrow>
     cacheDir w' = cacheDir w \<and> join w' = join w \<and> exists w' = exists w \<and>
     readTextFile w' = readTextFile w \<and> json_parse w' = json_parse w \<and>
     load_fails w' = load_fails w \<and> exec_fails w' = exec_fails w \<and> fetch w' = fetch w"

text \<open>Events of the cache store and of the remote call.\<close>

fun cache_or_remote :: "event \<Rightarrow> bool" where
  "cache_or_remote (Fetch req) = True"
| "cache_or_remote (Exec db CreateTranslations) = True"
| "cache_or_remote (Exec db (SelectTranslation text fromL toL)) = True"
| "cache_or_remote (Exec db (ReplaceTranslation text fromL toL translation)) = True"
| "cache_or_remote (Exec db CreateTerms) = False"
| "cache_or_remote (Exec db (InsertTerm src tgt)) = False"
| "cache_or_remote (Exec db SelectTerms) = False"
| "cache_or_remote (Info m) = False"
| "cache_or_remote (Warn m) = False"
| "cache_or_remote (Error m) = False"
| "cache_or_remote (Load db) = False"
| "cache_or_remote (Exists path) = False"
| "cache_or_remote (ReadTextFile path) = False"

text \<open>
  A step from \<open>w\<close> to \<open>w'\<close> that leaves the utilities and every table of translations as
  they are, and adds events other than those of the cache store and the remote call.
\<close>

definition quiet :: "world \<Rightarrow> world \<Rightarrow> bool" where
  "quiet w w' \<longleftrightarrow>
     same_env w w' \<and>
     (\<forall>db. translations_tbl (stores w' db) = translations_tbl (stores w db)) \<and>
     (\<exists>evs. trace w' = trace w @ evs \<and> \<not> list_ex cache_or_remote evs)"

text \<open>What \<^verbatim>\<open>resolvePath\<close> logs for a name.\<close>

definition path_warning :: "jsval \<Rightarrow> event list" where
  "path_warning fileName =
     (if truthy fileName \<and> (47 \<in> set (str_of fileName) \<or> 92 \<in> set (str_of fileName))
      then [Warn (PathConfigured (str_of fileName))] else [])"

text \<open>A query on a table of translations.\<close>

fun cache_read :: "event \<Rightarrow> bool" where
  "cache_read (Exec db (SelectTranslation text fromL toL)) = True"
| "cache_read (Exec db CreateTranslations) = False"
| "cache_read (Exec db (ReplaceTranslation text fromL toL translation)) = False"
| "cache_read (Exec db CreateTerms) = False"
| "cache_read (Exec db (InsertTerm src tgt)) = False"
| "cache_read (Exec db SelectTerms) = False"
| "cache_read (Fetch req) = False"
| "cache_read (Info m) = False"
| "cache_read (Warn m) = False"
| "cache_read (Error m) = False"
| "cache_read (Load db) = False"
| "cache_read (Exists path) = False"
| "cache_read (ReadTextFile path) = False"

text \<open>A write to a table of translations.\<close>

fun cache_write :: "event \<Rightarrow> bool" where
  "cache_write (Exec db (ReplaceTranslation text fromL toL translation)) = True"
| "cache_write (Exec db CreateTranslations) = False"
| "cache_write (Exec db (SelectTranslation text fromL toL)) = False"
| "cache_write (Exec db CreateTerms) = False"
| "cache_write (Exec db (InsertTerm src tgt)) = False"
| "cache_write (Exec db SelectTerms) = False"
| "cache_write (Fetch req) = False"
| "cache_write (Info m) = False"
| "cache_write (Warn m) = False"
| "cache_write (Error m) = False"
| "cache_write (Load db) = False"
| "cache_write (Exists path) = False"
| "cache_write (ReadTextFile path) = False"

text \<open>
  A step from \<open>w\<close> to \<open>w'\<close> that changes the trace only, sends no request and writes
  no translation.
\<close>

definition only_logs :: "world \<Rightarrow> world \<Rightarrow> bool" where
  "only_logs w w' \<longleftrightarrow>
     (\<exists>evs. w' = w\<lparr>trace := trace w @ evs\<rparr> \<and>
        \<not> list_ex (\<lambda>e. cache_write e \<or> fetched e \<noteq> []) evs)"

section \<open>Example worlds\<close>

text \<open>
  Case tables that change nothing, a configuration with a cache store and nothing else, a
  provider that answers every request with the content \<open>c\<close>, and a world in which every
  utility succeeds, no term file exists and the stores are empty.
\<close>

definition U0 :: unicode where
  "U0 = \<lparr>toUpperCase = (\<lambda>c. [c]), toLowerCase = (\<lambda>s. s)\<rparr>"

definition cfg0 :: config where
  "cfg0 = \<lparr>model = Undefined, apiKey = Str (ascii ''sk''), domains = Undefined,
           temperature = Undefined, termsFile = Undefined,
           databaseFile = Str (ascii ''cache.db''), forceOnline = Undefined\<rparr>"

definition reply :: "jsval \<Rightarrow> response" where
  "reply c = \<lparr>ok = True, status = 200,
              data = Some \<lparr>choices = Some [Some \<lparr>message = Some \<lparr>content = c\<rparr>\<rparr>]\<rparr>\<rparr>"

definition empty_store :: sqlite where
  "empty_store = \<lparr>translations_tbl = Map.empty, terms_tbl = []\<rparr>"

definition world0 :: "jsval \<Rightarrow> world" where
  "world0 c =
     \<lparr>cacheDir = ascii ''/c'', join = None, exists = (\<lambda>path. Some False),
      readTextFile = (\<lambda>path. None), json_parse = (\<lambda>s. None),
      load_fails = (\<lambda>db. False), exec_fails = (\<lambda>db st. False),
      fetch = (\<lambda>req. Some (reply c)), stores = (\<lambda>db. empty_store), trace = []\<rparr>"

text \<open>The store that \<open>cfg0\<close> names in \<open>world0\<close>, and a request text.\<close>

definition db0 :: jsstring where
  "db0 = ascii ''sqlite:/c/cache.db''"

definition hello :: jsstring where
  "hello = ascii ''hello''"

definition nihao :: jsstring where
  "nihao = [20320, 22909]"

definition en :: jsstring where
  "en = ascii ''en''"

definition zh :: jsstring where
  "zh = ascii ''zh''"

text \<open>
  Variants: the flag \<^verbatim>\<open>forceOnline\<close> set; a cache that already holds a translation of
  \<open>hello\<close>; a store that cannot be loaded; a store whose table cannot be created.
\<close>

definition cfg_forced :: config where
  "cfg_forced = cfg0\<lparr>forceOnline := Str (ascii ''true'')\<rparr>"

definition cached_store :: sqlite where
  "cached_store = \<lparr>translations_tbl = [(hello, en, zh) \<mapsto> ascii ''old''], terms_tbl = []\<rparr>"

definition world_cached :: "jsval \<Rightarrow> world" where
  "world_cached c = (world0 c)\<lparr>stores := (\<lambda>db. cached_store)\<rparr>"

definition world_noload :: "jsval \<Rightarrow> world" where
  "world_noload c = (world0 c)\<lparr>load_fails := (\<lambda>db. True)\<rparr>"

definition world_noschema :: "jsval \<Rightarrow> world" where
  "world_noschema c = (world0 c)\<lparr>exec_fails := (\<lambda>db st. st = CreateTranslations)\<rparr>"

section \<open>Whole-word match, as the specification words it\<close>

text \<open>
  The occurrence criterion of the glossary: an occurrence of the spelling (compared like
  the expression compares it, by canonical units) that has no word character directly
  before it and none directly after it; the edges of the text count as non-word.
  \<open>spelled\<close> reads the spelling at the head of a text and returns what follows it.
\<close>

fun spelled :: "unicode \<Rightarrow> bool \<Rightarrow> jsstring \<Rightarrow> jsstring \<Rightarrow> jsstring option" where
  "spelled U ic [] rest = Some rest"
| "spelled U ic (c # cs) [] = None"
| "spelled U ic (c # cs) (x # xs) =
     (if canonicalize U ic x = canonicalize U ic c then spelled U ic cs xs else None)"

definition bounded_here :: "unicode \<Rightarrow> bool \<Rightarrow> jsstring \<Rightarrow> nat option \<Rightarrow> jsstring \<Rightarrow> bool" where
  "bounded_here U ic s prev rest \<longleftrightarrow>
     \<not> word_before prev \<and>
     (case spelled U ic s rest of None \<Rightarrow> False | Some post \<Rightarrow> \<not> word_after post)"

fun whole_word_from :: "unicode \<Rightarrow> bool \<Rightarrow> jsstring \<Rightarrow> nat option \<Rightarrow> jsstring \<Rightarrow> bool" where
  "whole_word_from U ic s prev [] = bounded_here U ic s prev []"
| "whole_word_from U ic s prev (x # xs) =
     (bounded_here U ic s prev (x # xs) \<or> whole_word_from U ic s (Some x) xs)"

definition whole_word :: "unicode \<Rightarrow> bool \<Rightarrow> jsstring \<Rightarrow> jsstring \<Rightarrow> bool" where
  "whole_word U ic s text = whole_word_from U ic s None text"

text \<open>The unit before the position reached after reading \<open>xs\<close>.\<close>

definition last_unit :: "nat option \<Rightarrow> jsstring \<Rightarrow> nat option" where
  "last_unit prev xs = (if xs = [] then prev else Some (last xs))"

text \<open>Two spellings that the expression cannot tell apart.\<close>

definition same_spelling :: "unicode \<Rightarrow> bool \<Rightarrow> jsstring \<Rightarrow> jsstring \<Rightarrow> bool" where
  "same_spelling U ic occ s \<longleftrightarrow> map (canonicalize U ic) occ = map (canonicalize U ic) s"

text \<open>Example terms: GPU (not case sensitive), API (case sensitive), and a CJK spelling.\<close>

definition gpu_term :: term_row where
  "gpu_term = \<lparr>source = ascii ''GPU'', target = [26174, 21345], case_sensitive = Some 0\<rparr>"

definition api_term :: term_row where
  "api_term = \<lparr>source = ascii ''API'', target = [25509, 21475], case_sensitive = Some 1\<rparr>"

definition chuliqi :: jsstring where
  "chuliqi = [22788, 29702, 22120]"

definition cjk_term :: term_row where
  "cjk_term = \<lparr>source = chuliqi, target = ascii ''processor'', case_sensitive = Some 0\<rparr>"

section \<open>TermStore: what a load does to the stores\<close>

text \<open>
  The store after the migration loop has run over the entries \<open>ts\<close>, given which
  statements fail: each entry with a non-empty source and target whose insert does not
  fail is inserted with \<^verbatim>\<open>INSERT OR IGNORE\<close>.
\<close>

definition migrate_entry :: "(stmt \<Rightarrow> bool) \<Rightarrow> sqlite \<Rightarrow> legacy_term \<Rightarrow> sqlite" where
  "migrate_entry fails d t =
     (if truthy (legacy_source t) \<and> truthy (legacy_target t) \<and>
         \<not> fails (InsertTerm (str_of (legacy_source t)) (str_of (legacy_target t)))
      then run_stmt (InsertTerm (str_of (legacy_source t)) (str_of (legacy_target t))) d
      else d)"

definition migrated_store :: "(stmt \<Rightarrow> bool) \<Rightarrow> legacy_term list \<Rightarrow> sqlite \<Rightarrow> sqlite" where
  "migrated_store fails ts d = foldl (migrate_entry fails) d ts"


definition cpu :: jsstring where
  "cpu = ascii ''CPU''"

text \<open>
  A world with a legacy term file: the text \<^verbatim>\<open>[{"source":"CPU","target":"..."}]\<close> with
  the three CJK units of \<open>chuliqi\<close> as target, which \<^verbatim>\<open>JSON.parse\<close> reads as an array
  of one entry; and a configuration that names the file and no cache store.
\<close>

definition legacy_file :: jsstring where
  "legacy_file =
     [91, 123, 34, 115, 111, 117, 114, 99, 101, 34, 58, 34, 67, 80, 85, 34, 44, 34, 116, 97,
      114, 103, 101, 116, 34, 58, 34, 22788, 29702, 22120, 34, 125, 93]"

definition world_legacy :: world where
  "world_legacy =
     (world0 (Str nihao))
       \<lparr>exists := (\<lambda>path. Some True), readTextFile := (\<lambda>path. Some legacy_file),
        json_parse := (\<lambda>s. if s = legacy_file then Some (Array [LegacyTerm (Str cpu) (Str chuliqi)])
                            else None)\<rparr>"

definition cfg_terms :: config where
  "cfg_terms = cfg0\<lparr>termsFile := Str (ascii ''terms.json''), databaseFile := Undefined\<rparr>"

definition terms_db0 :: jsstring where
  "terms_db0 = ascii ''sqlite:/c/terms.json''"

section \<open>Warnings\<close>

fun is_warning :: "event \<Rightarrow> bool" where
  "is_warning (Warn m) = True"
| "is_warning (Info m) = False"
| "is_warning (Error m) = False"
| "is_warning (Load db) = False"
| "is_warning (Exec db st) = False"
| "is_warning (Exists path) = False"
| "is_warning (ReadTextFile path) = False"
| "is_warning (Fetch req) = False"

text \<open>
  Worlds in which the term file exists and cannot be read; can be read and is not JSON; is
  the legacy array, with an insert that fails. And a provider that refuses the request.
\<close>

definition world_unreadable :: world where
  "world_unreadable = (world0 (Str nihao))\<lparr>exists := (\<lambda>path. Some True)\<rparr>"

definition world_unparsable :: world where
  "world_unparsable =
     (world0 (Str nihao))\<lparr>exists := (\<lambda>path. Some True), readTextFile := (\<lambda>path. Some (ascii ''SQLite''))\<rparr>"

definition world_noinsert :: world where
  "world_noinsert = world_legacy\<lparr>exec_fails := (\<lambda>db st. st = InsertTerm cpu chuliqi)\<rparr>"

definition refusal :: response where
  "refusal = \<lparr>ok = False, status = 401, data = None\<rparr>"

definition world_refused :: world where
  "world_refused = (world0 (Str nihao))\<lparr>fetch := (\<lambda>req. Some refusal)\<rparr>"

text \<open>
  A configuration with both stores, and worlds in which one utility fails: \<^verbatim>\<open>join\<close> rejects;
  the existence check throws and no store can be loaded; the table of terms cannot be
  created; the terms cannot be read and the translation cannot be written.
\<close>

definition cfg_both :: config where
  "cfg_both = cfg0\<lparr>termsFile := Str (ascii ''terms.json'')\<rparr>"

definition world_nojoin :: world where
  "world_nojoin = (world0 (Str nihao))\<lparr>join := Some (\<lambda>dir name. None)\<rparr>"

definition world_down :: world where
  "world_down = (world0 (Str nihao))\<lparr>exists := (\<lambda>path. None), load_fails := (\<lambda>db. True)\<rparr>"

definition world_noterms :: world where
  "world_noterms = (world0 (Str nihao))\<lparr>exec_fails := (\<lambda>db st. st = CreateTerms)\<rparr>"

definition world_nowrite :: world where
  "world_nowrite =
     (world0 (Str nihao))
       \<lparr>exec_fails := (\<lambda>db st. st = SelectTerms \<or> st = ReplaceTranslation hello en zh nihao)\<rparr>"

text \<open>A term whose spelling ends with characters that are not word characters.\<close>

definition cpp_term :: term_row where
  "cpp_term = \<lparr>source = ascii ''C++'', target = ascii ''C++'', case_sensitive = Some 0\<rparr>"

section \<open>Steps that stay away from the cache and the remote call\<close>

lemma quiet_refl: "quiet w w"
  by (simp add: quiet_def same_env_def)

lemma quiet_trans: "quiet w w1 \<Longrightarrow> quiet w1 w2 \<Longrightarrow> quiet w w2"
  by (auto simp: quiet_def same_env_def)

lemma quiet_emit: "\<not> cache_or_remote e \<Longrightarrow> quiet w (emit e w)"
  by (simp add: quiet_def same_env_def emit_def)

lemma quiet_emit_after: "quiet w w1 \<Longrightarrow> \<not> cache_or_remote e \<Longrightarrow> quiet w (emit e w1)"
  using quiet_trans quiet_emit by blast

lemma quiet_resolvePath: "quiet w (snd (resolvePath fileName w))"
  by (auto simp: resolvePath_def quiet_refl quiet_emit split: option.splits)

lemma quiet_load: "quiet w (snd (Database_load db w))"
  by (simp add: Database_load_def quiet_emit)

lemma quiet_execute:
  "\<not> cache_or_remote (Exec db st) \<Longrightarrow> quiet w (snd (execute db st w))"
  by (cases st) (auto simp: execute_def quiet_def same_env_def emit_def)

lemma quiet_select_terms: "quiet w (snd (select_terms db w))"
  by (simp add: select_terms_def quiet_emit)

lemma quiet_check_exists: "quiet w (snd (check_exists path w))"
  by (auto simp: check_exists_def quiet_emit quiet_emit_after split: option.splits)

lemma quiet_read_legacy: "quiet w (snd (read_legacy path w))"
  by (auto simp: read_legacy_def Let_def quiet_emit quiet_emit_after
      split: option.splits parsed.splits)

lemma quiet_migrate: "quiet w (snd (migrate termsDb ts n w))"
proof (induction ts arbitrary: n w)
  case Nil
  show ?case by (simp add: quiet_refl)
next
  case (Cons t ts)
  show ?case
  proof (cases "truthy (legacy_source t) \<and> truthy (legacy_target t)")
    case True
    let ?st = "InsertTerm (str_of (legacy_source t)) (str_of (legacy_target t))"
    have a: "quiet w (snd (execute termsDb ?st w))"
      by (rule quiet_execute) simp
    have b: "quiet (snd (execute termsDb ?st w))
        (snd (migrate termsDb ts (if fst (execute termsDb ?st w) then Suc n else n)
           (snd (execute termsDb ?st w))))"
      by (rule Cons.IH)
    have step: "migrate termsDb (t # ts) n w =
        migrate termsDb ts (if fst (execute termsDb ?st w) then Suc n else n)
          (snd (execute termsDb ?st w))"
      using True by (simp add: split_beta)
    show ?thesis
      unfolding step by (rule quiet_trans [OF a b])
  next
    case False
    then show ?thesis using Cons.IH [where n = n and w = w] by auto
  qed
qed
lemma quiet_after:
  "quiet w w1 \<Longrightarrow> quiet w (snd (resolvePath fileName w1))"
  "quiet w w1 \<Longrightarrow> quiet w (snd (Database_load db w1))"
  "quiet w w1 \<Longrightarrow> \<not> cache_or_remote (Exec db st) \<Longrightarrow> quiet w (snd (execute db st w1))"
  "quiet w w1 \<Longrightarrow> quiet w (snd (select_terms db w1))"
  "quiet w w1 \<Longrightarrow> quiet w (snd (check_exists path w1))"
  "quiet w w1 \<Longrightarrow> quiet w (snd (read_legacy path w1))"
  "quiet w w1 \<Longrightarrow> quiet w (snd (migrate db ts n w1))"
  using quiet_trans quiet_resolvePath quiet_load quiet_execute quiet_select_terms
    quiet_check_exists quiet_read_legacy quiet_migrate by blast+

lemma quiet_detect_after: "quiet w w1 \<Longrightarrow> quiet w (snd (detect_legacy path w1))"
  unfolding detect_legacy_def
  by (auto simp: split_beta Let_def intro!: quiet_after)

lemma quiet_open_after:
  "quiet w w1 \<Longrightarrow> quiet w (snd (open_terms termsDb needMigration jsonTerms w1))"
  unfolding open_terms_def
  by (auto simp: split_beta Let_def intro!: quiet_after quiet_emit_after)

lemma quiet_load_terms_after: "quiet w w1 \<Longrightarrow> quiet w (snd (load_terms cfg w1))"
  unfolding load_terms_def
  by (auto simp: split_beta Let_def split: option.splits
      intro!: quiet_after quiet_emit_after quiet_detect_after quiet_open_after)

lemma quiet_match_terms_after: "quiet w w1 \<Longrightarrow> quiet w (snd (match_terms U termsDb text w1))"
  unfolding match_terms_def
  by (auto simp: split_beta Let_def split: option.splits
      intro!: quiet_after quiet_emit_after)

lemma quiet_prepare_after: "quiet w w1 \<Longrightarrow> quiet w (snd (prepare U cfg text fromL toL w1))"
  unfolding prepare_def
  by (auto simp: split_beta Let_def intro!: quiet_load_terms_after quiet_match_terms_after)

lemma quiet_prepare: "quiet w (snd (prepare U cfg text fromL toL w))"
  by (rule quiet_prepare_after [OF quiet_refl])


lemma quiet_same_env: "quiet w w' \<Longrightarrow> same_env w w'"
  by (simp add: quiet_def)

lemma quiet_fetch: "quiet w w' \<Longrightarrow> fetch w' = fetch w"
  by (simp add: quiet_def same_env_def)

lemma quiet_exec_fails: "quiet w w' \<Longrightarrow> exec_fails w' = exec_fails w"
  by (simp add: quiet_def same_env_def)

lemma quiet_translations: "quiet w w' \<Longrightarrow> translations_tbl (stores w' db) = translations_tbl (stores w db)"
  by (simp add: quiet_def)

lemma fetched_nil: "\<not> cache_or_remote e \<Longrightarrow> fetched e = []"
  by (cases e) auto

lemma fetched_all_nil: "\<not> list_ex cache_or_remote evs \<Longrightarrow> concat (map fetched evs) = []"
  by (induction evs) (auto simp: fetched_nil)

lemma quiet_requests: "quiet w w' \<Longrightarrow> requests w' = requests w"
  by (auto simp: quiet_def requests_def fetched_all_nil)

lemma cache_read_remote: "cache_read e \<Longrightarrow> cache_or_remote e"
  by (cases e rule: cache_read.cases) auto

lemma quiet_events:
  "quiet w w' \<Longrightarrow> trace w' = trace w @ events_since w w' \<and> \<not> list_ex cache_or_remote (events_since w w')"
  by (auto simp: quiet_def events_since_def)

lemma resolvePath_world:
  "snd (resolvePath fileName w) = w\<lparr>trace := trace w @ path_warning fileName\<rparr>"
  by (auto simp: resolvePath_def path_warning_def emit_def split: option.splits)

lemma resolvePath_env:
  "same_env w w' \<Longrightarrow> fst (resolvePath fileName w') = fst (resolvePath fileName w)"
  by (auto simp: resolvePath_def same_env_def split: option.splits)

text \<open>The cache section, case by case.\<close>

lemma cache_lookup_off:
  "\<not> configured (databaseFile cfg) \<Longrightarrow> cache_lookup cfg text fromL toL w = (Online None, w)"
  by (simp add: cache_lookup_def)

lemma cache_lookup_hit:
  assumes "configured (databaseFile cfg)" "\<not> forceOnlineBool cfg"
    and "fst (resolvePath (databaseFile cfg) w) = Some p"
    and "\<not> load_fails w (db_url p)"
    and "\<not> exec_fails w (db_url p) CreateTranslations"
    and "\<not> exec_fails w (db_url p) (SelectTranslation text fromL toL)"
    and "translations_tbl (stores w (db_url p)) (text, fromL, toL) = Some t"
  shows "cache_lookup cfg text fromL toL w =
    (CacheHit t, w\<lparr>trace := trace w @ path_warning (databaseFile cfg) @
       [Load (db_url p), Exec (db_url p) CreateTranslations,
        Exec (db_url p) (SelectTranslation text fromL toL), Info CacheHitMsg]\<rparr>)"
  using assms
  by (simp add: cache_lookup_def split_beta Let_def resolvePath_world Database_load_def
      execute_def select_translation_def emit_def)

lemma requests_emit [simp]: "requests (emit e w) = requests w @ fetched e"
  by (simp add: requests_def emit_def)

lemma requests_stores [simp]: "requests (w\<lparr>stores := S\<rparr>) = requests w"
  by (simp add: requests_def)

lemma same_env_refl [simp]: "same_env w w"
  by (simp add: same_env_def)

lemma same_env_trans: "same_env w w1 \<Longrightarrow> same_env w1 w2 \<Longrightarrow> same_env w w2"
  by (simp add: same_env_def)

lemma same_env_emit [simp]: "same_env w (emit e w)"
  by (simp add: same_env_def emit_def)

lemma only_logs_refl: "only_logs w w"
  unfolding only_logs_def by (rule exI [of _ "[]"]) simp

lemma only_logs_trans: "only_logs w w1 \<Longrightarrow> only_logs w1 w2 \<Longrightarrow> only_logs w w2"
  unfolding only_logs_def
proof (elim exE conjE)
  fix evs1 evs2
  assume a: "w1 = w\<lparr>trace := trace w @ evs1\<rparr>"
      "\<not> list_ex (\<lambda>e. cache_write e \<or> fetched e \<noteq> []) evs1"
    and b: "w2 = w1\<lparr>trace := trace w1 @ evs2\<rparr>"
      "\<not> list_ex (\<lambda>e. cache_write e \<or> fetched e \<noteq> []) evs2"
  show "\<exists>evs. w2 = w\<lparr>trace := trace w @ evs\<rparr> \<and>
      \<not> list_ex (\<lambda>e. cache_write e \<or> fetched e \<noteq> []) evs"
    by (rule exI [of _ "evs1 @ evs2"]) (use a b in simp)
qed

lemma only_logs_emit:
  "fetched e = [] \<Longrightarrow> \<not> cache_write e \<Longrightarrow> only_logs w (emit e w)"
  unfolding only_logs_def emit_def by (rule exI [of _ "[e]"]) simp

lemma only_logs_resolvePath: "only_logs w (snd (resolvePath fileName w))"
  unfolding only_logs_def resolvePath_world
  by (rule exI [of _ "path_warning fileName"]) (simp add: path_warning_def)

lemma only_logs_load: "only_logs w (snd (Database_load db w))"
  by (simp add: Database_load_def only_logs_emit)

lemma only_logs_create: "only_logs w (snd (execute db CreateTranslations w))"
  using only_logs_emit [of "Exec db CreateTranslations" w]
  by (simp add: execute_def)

lemma only_logs_select: "only_logs w (snd (select_translation db text fromL toL w))"
  by (simp add: select_translation_def only_logs_emit)

lemma only_logs_after:
  "only_logs w w1 \<Longrightarrow> fetched e = [] \<Longrightarrow> \<not> cache_write e \<Longrightarrow> only_logs w (emit e w1)"
  "only_logs w w1 \<Longrightarrow> only_logs w (snd (resolvePath fileName w1))"
  "only_logs w w1 \<Longrightarrow> only_logs w (snd (Database_load db w1))"
  "only_logs w w1 \<Longrightarrow> only_logs w (snd (execute db CreateTranslations w1))"
  "only_logs w w1 \<Longrightarrow> only_logs w (snd (select_translation db text fromL toL w1))"
  using only_logs_trans only_logs_emit only_logs_resolvePath only_logs_load only_logs_create
    only_logs_select by blast+

lemma only_logs_cache_lookup: "only_logs w (snd (cache_lookup cfg text fromL toL w))"
  unfolding cache_lookup_def
  by (auto simp: split_beta Let_def split: option.splits
      intro!: only_logs_after only_logs_refl)

lemma only_logs_stores: "only_logs w w' \<Longrightarrow> stores w' = stores w"
  by (auto simp: only_logs_def)

lemma only_logs_same_env: "only_logs w w' \<Longrightarrow> same_env w w'"
  by (auto simp: only_logs_def same_env_def)

lemma fetched_none: "\<not> list_ex (\<lambda>e. cache_write e \<or> fetched e \<noteq> []) evs \<Longrightarrow> concat (map fetched evs) = []"
  by (induction evs) (simp_all del: concat_eq_Nil_conv)

lemma only_logs_requests: "only_logs w w' \<Longrightarrow> requests w' = requests w"
  by (auto simp: only_logs_def requests_def fetched_none)

lemma only_logs_events:
  "only_logs w w' \<Longrightarrow>
   trace w' = trace w @ events_since w w' \<and> \<not> list_ex cache_write (events_since w w')"
  by (auto simp: only_logs_def events_since_def list_ex_iff)

lemma write_back_same_env: "same_env w (write_back db text fromL toL translation w)"
  by (auto simp: write_back_def execute_def same_env_def emit_def split: option.splits)

lemma write_back_requests:
  "requests (write_back db text fromL toL translation w) = requests w"
  by (auto simp: write_back_def execute_def split: option.splits)

lemma write_back_skipped:
  "db = None \<or> translation = [] \<Longrightarrow> write_back db text fromL toL translation w = w"
  by (auto simp: write_back_def split: option.splits)

lemma write_back_failed:
  "translation \<noteq> [] \<Longrightarrow> exec_fails w h (ReplaceTranslation text fromL toL translation) \<Longrightarrow>
   write_back (Some h) text fromL toL translation w =
     w\<lparr>trace := trace w @ [Exec h (ReplaceTranslation text fromL toL translation),
                           Warn CacheWriteFailed]\<rparr>"
  by (simp add: write_back_def execute_def emit_def)

lemma write_back_stored:
  "translation \<noteq> [] \<Longrightarrow> \<not> exec_fails w h (ReplaceTranslation text fromL toL translation) \<Longrightarrow>
   write_back (Some h) text fromL toL translation w =
     w\<lparr>stores := (stores w)(h := (stores w h)\<lparr>translations_tbl :=
                    (translations_tbl (stores w h))((text, fromL, toL) \<mapsto> translation)\<rparr>),
       trace := trace w @ [Exec h (ReplaceTranslation text fromL toL translation),
                           Info CacheStored]\<rparr>"
  by (simp add: write_back_def execute_def emit_def)

lemma write_back_trace:
  "\<exists>evs. trace (write_back db text fromL toL translation w) = trace w @ evs \<and>
     \<not> list_ex cache_read evs"
  by (cases db; cases "translation = []";
      cases "exec_fails w (the db) (ReplaceTranslation text fromL toL translation)")
    (simp_all add: write_back_skipped write_back_failed write_back_stored)

text \<open>The online part.\<close>

lemma online_result:
  "fst (online U cfg text fromL toL db w) =
     outcome (fetch w (fst (prepare U cfg text fromL toL w)))"
  using quiet_fetch [OF quiet_prepare]
  by (simp add: online_def outcome_def split_beta Let_def emit_def split: option.splits)

lemma online_requests:
  "requests (snd (online U cfg text fromL toL db w)) =
     requests w @ [fst (prepare U cfg text fromL toL w)]"
  using quiet_requests [OF quiet_prepare]
  by (simp add: online_def split_beta Let_def write_back_requests split: option.splits)

lemma online_same_env: "same_env w (snd (online U cfg text fromL toL db w))"
proof -
  have a: "same_env w (snd (prepare U cfg text fromL toL w))"
    by (rule quiet_same_env [OF quiet_prepare])
  have b: "same_env w (emit e (snd (prepare U cfg text fromL toL w)))" for e
    using a same_env_trans same_env_emit by blast
  have c: "same_env w (emit e' (emit e (snd (prepare U cfg text fromL toL w))))" for e e'
    using b same_env_trans same_env_emit by blast
  have d: "same_env w (write_back db text fromL toL t (emit e' (emit e (snd (prepare U cfg text fromL toL w)))))" for e e' t
    using c same_env_trans write_back_same_env by blast
  show ?thesis
    by (simp add: online_def split_beta Let_def b c d split: option.splits)
qed

text \<open>The call as a whole, by the way the cache section ends.\<close>

lemma translate_hit:
  "fst (cache_lookup cfg text fromL toL w) = CacheHit t \<Longrightarrow>
   translate U text fromL toL cfg w = (Inr t, snd (cache_lookup cfg text fromL toL w))"
  by (simp add: translate_def split_beta)

lemma translate_online:
  "fst (cache_lookup cfg text fromL toL w) = Online db \<Longrightarrow>
   translate U text fromL toL cfg w =
     online U cfg text fromL toL db (snd (cache_lookup cfg text fromL toL w))"
  by (simp add: translate_def split_beta)

lemma cache_lookup_fetch:
  "fetch (snd (cache_lookup cfg text fromL toL w)) = fetch w"
  using only_logs_same_env [OF only_logs_cache_lookup] by (simp add: same_env_def)

lemma translate_online_result:
  "fst (cache_lookup cfg text fromL toL w) = Online db \<Longrightarrow>
   fst (translate U text fromL toL cfg w) = outcome (fetch w (request_of U text fromL toL cfg w))"
  by (simp add: translate_online online_result request_of_def cache_lookup_fetch)

lemma translate_online_requests:
  "fst (cache_lookup cfg text fromL toL w) = Online db \<Longrightarrow>
   requests (snd (translate U text fromL toL cfg w)) =
     requests w @ [request_of U text fromL toL cfg w]"
  by (simp add: translate_online online_requests request_of_def
      only_logs_requests [OF only_logs_cache_lookup])

lemma translate_hit_requests:
  "fst (cache_lookup cfg text fromL toL w) = CacheHit t \<Longrightarrow>
   requests (snd (translate U text fromL toL cfg w)) = requests w"
  by (simp add: translate_hit only_logs_requests [OF only_logs_cache_lookup])

lemma translate_same_env: "same_env w (snd (translate U text fromL toL cfg w))"
proof (cases "fst (cache_lookup cfg text fromL toL w)")
  case (CacheHit t)
  then show ?thesis
    by (simp add: translate_hit only_logs_same_env [OF only_logs_cache_lookup])
next
  case (Online db)
  then show ?thesis
    using same_env_trans [OF only_logs_same_env [OF only_logs_cache_lookup] online_same_env]
    by (simp add: translate_online)
qed

text \<open>The cache section when the store opens and the query runs.\<close>

lemma cache_lookup_miss:
  assumes "configured (databaseFile cfg)" "\<not> forceOnlineBool cfg"
    and "fst (resolvePath (databaseFile cfg) w) = Some p"
    and "\<not> load_fails w (db_url p)"
    and "\<not> exec_fails w (db_url p) CreateTranslations"
    and "\<not> exec_fails w (db_url p) (SelectTranslation text fromL toL)"
    and "translations_tbl (stores w (db_url p)) (text, fromL, toL) = None"
  shows "cache_lookup cfg text fromL toL w =
    (Online (Some (db_url p)), w\<lparr>trace := trace w @ path_warning (databaseFile cfg) @
       [Load (db_url p), Exec (db_url p) CreateTranslations,
        Exec (db_url p) (SelectTranslation text fromL toL), Info CacheMiss]\<rparr>)"
  using assms
  by (simp add: cache_lookup_def split_beta Let_def resolvePath_world Database_load_def
      execute_def select_translation_def emit_def)

lemma cache_lookup_forced:
  assumes "configured (databaseFile cfg)" "forceOnlineBool cfg"
    and "fst (resolvePath (databaseFile cfg) w) = Some p"
    and "\<not> load_fails w (db_url p)"
    and "\<not> exec_fails w (db_url p) CreateTranslations"
  shows "cache_lookup cfg text fromL toL w =
    (Online (Some (db_url p)), w\<lparr>trace := trace w @ path_warning (databaseFile cfg) @
       [Load (db_url p), Exec (db_url p) CreateTranslations, Info ForcedOnline]\<rparr>)"
  using assms
  by (simp add: cache_lookup_def split_beta Let_def resolvePath_world Database_load_def
      execute_def emit_def)

lemma cache_lookup_no_path:
  assumes "configured (databaseFile cfg)"
    and "fst (resolvePath (databaseFile cfg) w) = None"
  shows "cache_lookup cfg text fromL toL w =
    (Online None, w\<lparr>trace := trace w @ path_warning (databaseFile cfg) @ [Warn DatabaseError]\<rparr>)"
  using assms
  by (simp add: cache_lookup_def split_beta Let_def resolvePath_world emit_def)

lemma cache_lookup_no_load:
  assumes "configured (databaseFile cfg)"
    and "fst (resolvePath (databaseFile cfg) w) = Some p"
    and "load_fails w (db_url p)"
  shows "cache_lookup cfg text fromL toL w =
    (Online None, w\<lparr>trace := trace w @ path_warning (databaseFile cfg) @
       [Load (db_url p), Warn DatabaseError]\<rparr>)"
  using assms
  by (simp add: cache_lookup_def split_beta Let_def resolvePath_world Database_load_def emit_def)

lemma cache_lookup_no_schema:
  assumes "configured (databaseFile cfg)"
    and "fst (resolvePath (databaseFile cfg) w) = Some p"
    and "\<not> load_fails w (db_url p)"
    and "exec_fails w (db_url p) CreateTranslations"
  shows "cache_lookup cfg text fromL toL w =
    (Online (Some (db_url p)), w\<lparr>trace := trace w @ path_warning (databaseFile cfg) @
       [Load (db_url p), Exec (db_url p) CreateTranslations, Warn DatabaseError]\<rparr>)"
  using assms
  by (simp add: cache_lookup_def split_beta Let_def resolvePath_world Database_load_def
      execute_def emit_def)

lemma cache_lookup_no_select:
  assumes "configured (databaseFile cfg)" "\<not> forceOnlineBool cfg"
    and "fst (resolvePath (databaseFile cfg) w) = Some p"
    and "\<not> load_fails w (db_url p)"
    and "\<not> exec_fails w (db_url p) CreateTranslations"
    and "exec_fails w (db_url p) (SelectTranslation text fromL toL)"
  shows "cache_lookup cfg text fromL toL w =
    (Online (Some (db_url p)), w\<lparr>trace := trace w @ path_warning (databaseFile cfg) @
       [Load (db_url p), Exec (db_url p) CreateTranslations,
        Exec (db_url p) (SelectTranslation text fromL toL), Warn DatabaseError]\<rparr>)"
  using assms
  by (simp add: cache_lookup_def split_beta Let_def resolvePath_world Database_load_def
      execute_def select_translation_def emit_def)

lemma events_since_eq: "trace w' = trace w @ evs \<Longrightarrow> events_since w w' = evs"
  by (simp add: events_since_def)

lemma no_read_quiet: "\<not> list_ex cache_or_remote evs \<Longrightarrow> \<not> list_ex cache_read evs"
  by (auto simp: list_ex_iff dest: cache_read_remote)

lemma online_trace:
  "\<exists>evs. trace (snd (online U cfg text fromL toL db w)) = trace w @ evs \<and>
     \<not> list_ex cache_read evs"
proof -
  let ?req = "fst (prepare U cfg text fromL toL w)"
  let ?w2 = "snd (prepare U cfg text fromL toL w)"
  obtain evs1 where e1: "trace ?w2 = trace w @ evs1" "\<not> list_ex cache_read evs1"
    using quiet_prepare [of w U cfg "text" fromL toL] no_read_quiet
    unfolding quiet_def by blast
  show ?thesis
  proof (cases "fetch (emit (Fetch ?req) ?w2) ?req")
    case None
    then show ?thesis
      using e1 by (simp add: online_def split_beta Let_def emit_def)
  next
    case (Some res)
    show ?thesis
    proof (cases "ok res")
      case False
      then show ?thesis
        using e1 Some by (simp add: online_def split_beta Let_def emit_def)
    next
      case True
      let ?w4 = "emit (Info OnlineApi) (emit (Fetch ?req) ?w2)"
      obtain evs2 where e2:
        "trace (write_back db text fromL toL (normalize_response (data res)) ?w4) = trace ?w4 @ evs2"
        "\<not> list_ex cache_read evs2"
        using write_back_trace by blast
      have "trace (snd (online U cfg text fromL toL db w)) =
          trace w @ (evs1 @ [Fetch ?req, Info OnlineApi] @ evs2)"
        using e1 e2 Some True by (simp add: online_def split_beta Let_def emit_def)
      moreover have "\<not> list_ex cache_read (evs1 @ [Fetch ?req, Info OnlineApi] @ evs2)"
        using e1 e2 by simp
      ultimately show ?thesis by blast
    qed
  qed
qed

lemma online_empty:
  assumes "fetch w (fst (prepare U cfg text fromL toL w)) = Some res" "ok res"
    and "normalize_response (data res) = []"
  shows "snd (online U cfg text fromL toL db w) =
    emit (Info OnlineApi) (emit (Fetch (fst (prepare U cfg text fromL toL w)))
      (snd (prepare U cfg text fromL toL w)))"
  using assms quiet_fetch [OF quiet_prepare]
  by (simp add: online_def split_beta Let_def write_back_skipped emit_def)

lemma online_stored:
  assumes "fetch w (fst (prepare U cfg text fromL toL w)) = Some res" "ok res"
    and "normalize_response (data res) \<noteq> []"
    and "\<not> exec_fails w h (ReplaceTranslation text fromL toL (normalize_response (data res)))"
  shows "translations_tbl (stores (snd (online U cfg text fromL toL (Some h) w)) h)
      (text, fromL, toL) = Some (normalize_response (data res))"
  using assms quiet_fetch [OF quiet_prepare]
    quiet_exec_fails [OF quiet_prepare]
  by (simp add: online_def split_beta Let_def write_back_stored emit_def)

lemma no_write_quiet: "\<not> list_ex cache_or_remote evs \<Longrightarrow> \<not> list_ex cache_write evs"
proof -
  have "cache_write e \<Longrightarrow> cache_or_remote e" for e
    by (cases e rule: cache_write.cases) auto
  then show "\<not> list_ex cache_or_remote evs \<Longrightarrow> \<not> list_ex cache_write evs"
    by (auto simp: list_ex_iff)
qed

lemma cache_lookup_trace:
  "\<exists>evs. snd (cache_lookup cfg text fromL toL w) = w\<lparr>trace := trace w @ evs\<rparr> \<and>
     \<not> list_ex cache_write evs"
  using only_logs_cache_lookup [of w cfg "text" fromL toL]
  unfolding only_logs_def by (auto simp: list_ex_iff)

text \<open>
  Claim C10. When the call reaches the provider, the remote call succeeds and the
  normalized translation is the empty string, the write-back is skipped: no statement
  writes a translation, every table of translations is as it was before the call (so the
  key has an entry only if it had one), and the empty string is returned.
\<close>

theorem C10_empty_translation_is_not_cached:
  assumes online: "fst (cache_lookup cfg text fromL toL w) = Online db"
    and answer: "fetch w (request_of U text fromL toL cfg w) = Some res" "ok res"
    and empty: "normalize_response (data res) = []"
  shows "fst (translate U text fromL toL cfg w) = Inr [] \<and>
    \<not> list_ex cache_write (events_since w (snd (translate U text fromL toL cfg w))) \<and>
    (\<forall>h. translations_tbl (stores (snd (translate U text fromL toL cfg w)) h) =
         translations_tbl (stores w h))"
proof -
  let ?wc = "snd (cache_lookup cfg text fromL toL w)"
  let ?req = "request_of U text fromL toL cfg w"
  let ?wp = "snd (prepare U cfg text fromL toL ?wc)"
  have fc: "fetch ?wc (fst (prepare U cfg text fromL toL ?wc)) = Some res"
    using answer by (simp add: cache_lookup_fetch request_of_def)
  have w': "snd (translate U text fromL toL cfg w) = emit (Info OnlineApi) (emit (Fetch ?req) ?wp)"
    using online_empty [OF fc answer(2) empty, of db]
    by (simp add: translate_online [OF online] request_of_def)
  have r: "fst (translate U text fromL toL cfg w) = Inr []"
    using translate_online_result [OF online, of U] answer empty by (simp add: outcome_def)
  obtain ec where ec: "?wc = w\<lparr>trace := trace w @ ec\<rparr>" "\<not> list_ex cache_write ec"
    using cache_lookup_trace by blast
  have qp: "quiet ?wc ?wp" by (rule quiet_prepare)
  then obtain ep where ep: "trace ?wp = trace ?wc @ ep" "\<not> list_ex cache_or_remote ep"
    unfolding quiet_def by blast
  have tw: "trace ?wc = trace w @ ec"
    by (subst ec(1)) simp
  have "trace (snd (translate U text fromL toL cfg w)) =
      trace w @ (ec @ ep @ [Fetch ?req, Info OnlineApi])"
    by (simp add: w' emit_def ep(1) tw)
  then have ev: "events_since w (snd (translate U text fromL toL cfg w)) =
      ec @ ep @ [Fetch ?req, Info OnlineApi]"
    by (rule events_since_eq)
  have nw: "\<not> list_ex cache_write (events_since w (snd (translate U text fromL toL cfg w)))"
    using ec(2) no_write_quiet [OF ep(2)] by (simp add: ev)
  have sc: "stores ?wc = stores w"
    by (rule only_logs_stores [OF only_logs_cache_lookup])
  have "translations_tbl (stores (snd (translate U text fromL toL cfg w)) h) =
      translations_tbl (stores w h)" for h
    using quiet_translations [OF qp, of h] by (simp add: w' emit_def sc)
  with r nw show ?thesis by blast
qed

lemmas example_defs = cfg0_def world0_def reply_def empty_store_def db0_def hello_def nihao_def
  U0_def en_def zh_def

lemmas cache_defs = cache_lookup_def resolvePath_def Database_load_def execute_def
  select_translation_def emit_def configured_def forceOnlineBool_def db_url_def trim_def
  is_space_def ascii_def

lemmas normalize_response_defs = normalize_response_def content_of_def trim_def is_space_def sentinel_def ascii_def

theorem C10_witness:
  "fst (translate U0 hello en zh cfg0 (world0 (Str (ascii ''<|endofcontent|>  '')))) = Inr [] \<and>
   translations_tbl
     (stores (snd (translate U0 hello en zh cfg0 (world0 (Str (ascii ''<|endofcontent|>  ''))))) db0)
     (hello, en, zh) = None"
proof -
  let ?c = "Str (ascii ''<|endofcontent|>  '')"
  have h1: "fst (cache_lookup cfg0 hello en zh (world0 ?c)) = Online (Some db0)"
    by (simp add: cache_defs example_defs split_beta Let_def)
  have h2: "fetch (world0 ?c) (request_of U0 hello en zh cfg0 (world0 ?c)) = Some (reply ?c)"
    by (simp add: world0_def)
  have h3: "ok (reply ?c)"
    by (simp add: reply_def)
  have h4: "normalize_response (data (reply ?c)) = []"
    by (simp add: normalize_response_defs reply_def)
  have "translations_tbl (stores (world0 ?c) db0) (hello, en, zh) = None"
    by (simp add: world0_def empty_store_def)
  then show ?thesis
    using C10_empty_translation_is_not_cached [OF h1 h2 h3 h4] by simp
qed

lemma no_read_path_warning: "\<not> list_ex cache_read (path_warning f)"
  by (simp add: path_warning_def)

lemma online_none_translations:
  "translations_tbl (stores (snd (online U cfg text fromL toL None w)) h) =
     translations_tbl (stores w h)"
  using quiet_translations [OF quiet_prepare]
  by (simp add: online_def split_beta Let_def write_back_skipped emit_def split: option.splits)

text \<open>The cache section with the force-online flag set: it never ends the call.\<close>

lemma cache_lookup_when_forced:
  assumes forced: "forceOnlineBool cfg"
  shows "\<exists>db pre. cache_lookup cfg text fromL toL w = (Online db, w\<lparr>trace := trace w @ pre\<rparr>) \<and>
     \<not> list_ex cache_read pre \<and>
     (\<forall>p. configured (databaseFile cfg) \<and> fst (resolvePath (databaseFile cfg) w) = Some p \<and>
        \<not> load_fails w (db_url p) \<longrightarrow> db = Some (db_url p))"
proof -
  let ?goal = "\<lambda>db pre. cache_lookup cfg text fromL toL w = (Online db, w\<lparr>trace := trace w @ pre\<rparr>) \<and>
     \<not> list_ex cache_read pre \<and>
     (\<forall>p. configured (databaseFile cfg) \<and> fst (resolvePath (databaseFile cfg) w) = Some p \<and>
        \<not> load_fails w (db_url p) \<longrightarrow> db = Some (db_url p))"
  show ?thesis
  proof (cases "configured (databaseFile cfg)")
    case False
    have "?goal None []"
      using False cache_lookup_off [OF False, of "text" fromL toL w] by simp
    then show ?thesis by blast
  next
    case cfgd: True
    show ?thesis
    proof (cases "fst (resolvePath (databaseFile cfg) w)")
      case None
      have "?goal None (path_warning (databaseFile cfg) @ [Warn DatabaseError])"
        using cache_lookup_no_path [OF cfgd None, of "text" fromL toL] None
        by (simp add: no_read_path_warning)
      then show ?thesis by blast
    next
      case (Some p)
      show ?thesis
      proof (cases "load_fails w (db_url p)")
        case True
        have "?goal None (path_warning (databaseFile cfg) @ [Load (db_url p), Warn DatabaseError])"
          using cache_lookup_no_load [OF cfgd Some True, of "text" fromL toL] Some True
          by (simp add: no_read_path_warning)
        then show ?thesis by blast
      next
        case loaded: False
        show ?thesis
        proof (cases "exec_fails w (db_url p) CreateTranslations")
          case True
          have "?goal (Some (db_url p)) (path_warning (databaseFile cfg) @
              [Load (db_url p), Exec (db_url p) CreateTranslations, Warn DatabaseError])"
            using cache_lookup_no_schema [OF cfgd Some loaded True, of "text" fromL toL] Some
            by (simp add: no_read_path_warning)
          then show ?thesis by blast
        next
          case False
          have "?goal (Some (db_url p)) (path_warning (databaseFile cfg) @
              [Load (db_url p), Exec (db_url p) CreateTranslations, Info ForcedOnline])"
            using cache_lookup_forced [OF cfgd forced Some loaded False, of "text" fromL toL] Some
            by (simp add: no_read_path_warning)
          then show ?thesis by blast
        qed
      qed
    qed
  qed
qed

lemma online_empty_translations:
  assumes "fetch w (fst (prepare U cfg text fromL toL w)) = Some res" "ok res"
    and "normalize_response (data res) = []"
  shows "translations_tbl (stores (snd (online U cfg text fromL toL db w)) h) =
    translations_tbl (stores w h)"
  using quiet_translations [OF quiet_prepare, where w = w and db = h]
  by (simp add: online_empty [OF assms] emit_def)

lemmas variant_defs = cfg_forced_def cached_store_def world_cached_def world_noload_def
  world_noschema_def

text \<open>
  Claim C7, as stated, fails: with the force-online flag set, an open cache store that
  holds a translation of the text and a remote call that succeeds with a content of one
  space, the normalized translation is empty, nothing is written, and the entry for the
  key still holds the old text after the call.
\<close>

theorem C7_counterexample:
  "forceOnlineBool cfg_forced \<and>
   translations_tbl (stores (world_cached (Str [32])) db0) (hello, en, zh) = Some (ascii ''old'') \<and>
   fetch (world_cached (Str [32])) (request_of U0 hello en zh cfg_forced (world_cached (Str [32]))) =
     Some (reply (Str [32])) \<and>
   ok (reply (Str [32])) \<and>
   Load db0 \<in> set (trace (snd (translate U0 hello en zh cfg_forced (world_cached (Str [32]))))) \<and>
   fst (translate U0 hello en zh cfg_forced (world_cached (Str [32]))) = Inr [] \<and>
   translations_tbl (stores (snd (translate U0 hello en zh cfg_forced (world_cached (Str [32])))) db0)
     (hello, en, zh) = Some (ascii ''old'')"
  by (simp add: translate_def cache_defs online_def prepare_def load_terms_def match_terms_def
      build_request_def write_back_def normalize_response_def content_of_def sentinel_def
      example_defs variant_defs split_beta Let_def request_of_def)

text \<open>
  Claim C7, amended. With the force-online flag set the call does not query the cache,
  whatever it holds: it sends one request and the caller gets the outcome of the remote
  call. The write-back is not disabled: when the cache store is configured and can be
  loaded, the response is ok, the normalized translation is not empty and the write does
  not fail, the translation is stored under the key in place of any earlier text. When
  the normalized translation is empty nothing is written, and every table of
  translations is as it was.
\<close>

theorem C7_force_online_skips_read_keeps_write:
  assumes forced: "forceOnlineBool cfg"
  shows "\<not> list_ex cache_read (events_since w (snd (translate U text fromL toL cfg w))) \<and>
    requests (snd (translate U text fromL toL cfg w)) =
      requests w @ [request_of U text fromL toL cfg w] \<and>
    fst (translate U text fromL toL cfg w) =
      outcome (fetch w (request_of U text fromL toL cfg w)) \<and>
    (\<forall>p res. configured (databaseFile cfg) \<and>
       fst (resolvePath (databaseFile cfg) w) = Some p \<and> \<not> load_fails w (db_url p) \<and>
       fetch w (request_of U text fromL toL cfg w) = Some res \<and> ok res \<and>
       normalize_response (data res) \<noteq> [] \<and>
       \<not> exec_fails w (db_url p)
           (ReplaceTranslation text fromL toL (normalize_response (data res))) \<longrightarrow>
       fst (translate U text fromL toL cfg w) = Inr (normalize_response (data res)) \<and>
       translations_tbl (stores (snd (translate U text fromL toL cfg w)) (db_url p))
         (text, fromL, toL) = Some (normalize_response (data res))) \<and>
    (\<forall>res. fetch w (request_of U text fromL toL cfg w) = Some res \<and> ok res \<and>
       normalize_response (data res) = [] \<longrightarrow>
       fst (translate U text fromL toL cfg w) = Inr [] \<and>
       (\<forall>h. translations_tbl (stores (snd (translate U text fromL toL cfg w)) h) =
            translations_tbl (stores w h)))"
proof -
  obtain db pre where cl: "cache_lookup cfg text fromL toL w = (Online db, w\<lparr>trace := trace w @ pre\<rparr>)"
    and pre: "\<not> list_ex cache_read pre"
    and handle: "\<And>p. configured (databaseFile cfg) \<Longrightarrow>
        fst (resolvePath (databaseFile cfg) w) = Some p \<Longrightarrow> \<not> load_fails w (db_url p) \<Longrightarrow>
        db = Some (db_url p)"
    using cache_lookup_when_forced [OF forced, of "text" fromL toL w] by blast
  let ?wc = "w\<lparr>trace := trace w @ pre\<rparr>"
  have on: "fst (cache_lookup cfg text fromL toL w) = Online db"
    and wc: "snd (cache_lookup cfg text fromL toL w) = ?wc"
    using cl by simp_all
  have tr: "translate U text fromL toL cfg w = online U cfg text fromL toL db ?wc"
    using translate_online [OF on, of U] by (simp add: wc)
  have r: "fst (translate U text fromL toL cfg w) =
      outcome (fetch w (request_of U text fromL toL cfg w))"
    by (rule translate_online_result [OF on])
  have q: "requests (snd (translate U text fromL toL cfg w)) =
      requests w @ [request_of U text fromL toL cfg w]"
    by (rule translate_online_requests [OF on])
  have e: "\<not> list_ex cache_read (events_since w (snd (translate U text fromL toL cfg w)))"
  proof -
    obtain evs where evs: "trace (snd (online U cfg text fromL toL db ?wc)) = trace ?wc @ evs"
      "\<not> list_ex cache_read evs"
      using online_trace by blast
    have "trace (snd (translate U text fromL toL cfg w)) = trace w @ (pre @ evs)"
      using evs(1) by (simp add: tr)
    then have "events_since w (snd (translate U text fromL toL cfg w)) = pre @ evs"
      by (rule events_since_eq)
    then show ?thesis
      using evs(2) pre by simp
  qed
  have s: "fst (translate U text fromL toL cfg w) = Inr (normalize_response (data res)) \<and>
      translations_tbl (stores (snd (translate U text fromL toL cfg w)) (db_url p))
        (text, fromL, toL) = Some (normalize_response (data res))"
    if h: "configured (databaseFile cfg)" "fst (resolvePath (databaseFile cfg) w) = Some p"
      "\<not> load_fails w (db_url p)" "fetch w (request_of U text fromL toL cfg w) = Some res"
      "ok res" "normalize_response (data res) \<noteq> []"
      "\<not> exec_fails w (db_url p) (ReplaceTranslation text fromL toL (normalize_response (data res)))"
    for p res
  proof -
    have d: "db = Some (db_url p)"
      using h(1,2,3) by (rule handle)
    have fc: "fetch ?wc (fst (prepare U cfg text fromL toL ?wc)) = Some res"
      using h(4) by (simp add: request_of_def wc)
    have ef: "\<not> exec_fails ?wc (db_url p)
        (ReplaceTranslation text fromL toL (normalize_response (data res)))"
      using h(7) by simp
    have "translations_tbl (stores (snd (translate U text fromL toL cfg w)) (db_url p))
        (text, fromL, toL) = Some (normalize_response (data res))"
      using online_stored [OF fc h(5) h(6) ef] by (simp add: tr d)
    moreover have "fst (translate U text fromL toL cfg w) = Inr (normalize_response (data res))"
      using h(4,5) by (simp add: r outcome_def)
    ultimately show ?thesis by blast
  qed
  have n: "fst (translate U text fromL toL cfg w) = Inr [] \<and>
      (\<forall>h. translations_tbl (stores (snd (translate U text fromL toL cfg w)) h) =
           translations_tbl (stores w h))"
    if h: "fetch w (request_of U text fromL toL cfg w) = Some res" "ok res"
      "normalize_response (data res) = []" for res
  proof -
    have fc: "fetch ?wc (fst (prepare U cfg text fromL toL ?wc)) = Some res"
      using h(1) by (simp add: request_of_def wc)
    have "translations_tbl (stores (snd (translate U text fromL toL cfg w)) k) =
        translations_tbl (stores w k)" for k
      using online_empty_translations [OF fc h(2) h(3), of db k] by (simp add: tr)
    moreover have "fst (translate U text fromL toL cfg w) = Inr []"
      using h by (simp add: r outcome_def)
    ultimately show ?thesis by blast
  qed
  show ?thesis
    using e q r s n by blast
qed

text \<open>The events of a call, stage by stage.\<close>

lemma since_chain:
  "trace a = trace w @ x \<Longrightarrow> trace b = trace a @ z \<Longrightarrow> trace w' = trace b @ y \<Longrightarrow>
   events_since w w' = x @ z @ y \<and> events_since a b = z"
  by (simp add: events_since_def)

lemma cache_lookup_appends:
  "\<exists>x. trace (snd (cache_lookup cfg text fromL toL w)) = trace w @ x"
proof -
  obtain evs where "snd (cache_lookup cfg text fromL toL w) = w\<lparr>trace := trace w @ evs\<rparr>"
    using cache_lookup_trace by blast
  then have "trace (snd (cache_lookup cfg text fromL toL w)) = trace w @ evs"
    by simp
  then show ?thesis ..
qed

lemma quiet_appends: "quiet w w' \<Longrightarrow> \<exists>x. trace w' = trace w @ x"
  unfolding quiet_def by blast

lemma load_terms_appends: "\<exists>x. trace (snd (load_terms cfg w)) = trace w @ x"
  by (rule quiet_appends [OF quiet_load_terms_after [OF quiet_refl]])

lemma match_terms_appends: "\<exists>x. trace (snd (match_terms U termsDb text w)) = trace w @ x"
  by (rule quiet_appends [OF quiet_match_terms_after [OF quiet_refl]])

lemma write_back_appends:
  "\<exists>x. trace (write_back db text fromL toL translation w) = trace w @ x"
  using write_back_trace by blast

lemma online_after_prepare:
  "\<exists>y. trace (snd (online U cfg text fromL toL db w)) =
     trace (snd (prepare U cfg text fromL toL w)) @ y"
proof -
  let ?req = "fst (prepare U cfg text fromL toL w)"
  let ?w2 = "snd (prepare U cfg text fromL toL w)"
  show ?thesis
  proof (cases "fetch (emit (Fetch ?req) ?w2) ?req")
    case None
    then show ?thesis
      by (simp add: online_def split_beta Let_def emit_def)
  next
    case (Some res)
    show ?thesis
    proof (cases "ok res")
      case False
      then show ?thesis
        using Some by (simp add: online_def split_beta Let_def emit_def)
    next
      case True
      obtain x where "trace (write_back db text fromL toL (normalize_response (data res))
          (emit (Info OnlineApi) (emit (Fetch ?req) ?w2))) =
          trace (emit (Info OnlineApi) (emit (Fetch ?req) ?w2)) @ x"
        using write_back_appends by blast
      then show ?thesis
        using Some True by (simp add: online_def split_beta Let_def emit_def)
    qed
  qed
qed

text \<open>An event of a stage is an event of the call.\<close>

lemma cache_event_of_call:
  assumes "e \<in> set (events_since w (snd (cache_lookup cfg text fromL toL w)))"
  shows "e \<in> set (events_since w (snd (translate U text fromL toL cfg w)))"
proof -
  let ?wc = "snd (cache_lookup cfg text fromL toL w)"
  obtain x where x: "trace ?wc = trace w @ x"
    using cache_lookup_appends by blast
  have "\<exists>y. trace (snd (translate U text fromL toL cfg w)) = trace ?wc @ y"
  proof (cases "fst (cache_lookup cfg text fromL toL w)")
    case (CacheHit t)
    then show ?thesis by (simp add: translate_hit)
  next
    case (Online db)
    then show ?thesis
      using online_trace [of U cfg "text" fromL toL db ?wc] by (auto simp: translate_online)
  qed
  then obtain y where y: "trace (snd (translate U text fromL toL cfg w)) = trace ?wc @ y"
    by blast
  show ?thesis
    using assms by (simp add: events_since_def x y)
qed

lemma terms_event_of_call:
  assumes on: "fst (cache_lookup cfg text fromL toL w) = Online db"
    and e: "e \<in> set (events_since (snd (cache_lookup cfg text fromL toL w))
        (snd (load_terms cfg (snd (cache_lookup cfg text fromL toL w)))))"
  shows "e \<in> set (events_since w (snd (translate U text fromL toL cfg w)))"
proof -
  let ?wc = "snd (cache_lookup cfg text fromL toL w)"
  let ?wl = "snd (load_terms cfg ?wc)"
  let ?wm = "snd (prepare U cfg text fromL toL ?wc)"
  obtain x where x: "trace ?wc = trace w @ x"
    using cache_lookup_appends by blast
  obtain z where z: "trace ?wl = trace ?wc @ z"
    using load_terms_appends by blast
  obtain m where m: "trace ?wm = trace ?wl @ m"
    using match_terms_appends [of U "fst (load_terms cfg ?wc)" "text" ?wl]
    by (auto simp: prepare_def split_beta)
  obtain y where y: "trace (snd (online U cfg text fromL toL db ?wc)) = trace ?wm @ y"
    using online_after_prepare by blast
  have "trace (snd (translate U text fromL toL cfg w)) = trace ?wl @ (m @ y)"
    by (simp add: translate_online [OF on] y m)
  from since_chain [OF x z this] e show ?thesis
    by simp
qed

lemma match_event_of_call:
  assumes on: "fst (cache_lookup cfg text fromL toL w) = Online db"
    and e: "e \<in> set (events_since (snd (load_terms cfg (snd (cache_lookup cfg text fromL toL w))))
        (snd (prepare U cfg text fromL toL (snd (cache_lookup cfg text fromL toL w)))))"
  shows "e \<in> set (events_since w (snd (translate U text fromL toL cfg w)))"
proof -
  let ?wc = "snd (cache_lookup cfg text fromL toL w)"
  let ?wl = "snd (load_terms cfg ?wc)"
  let ?wm = "snd (prepare U cfg text fromL toL ?wc)"
  obtain x where x: "trace ?wc = trace w @ x"
    using cache_lookup_appends by blast
  obtain z where z: "trace ?wl = trace ?wc @ z"
    using load_terms_appends by blast
  obtain m where m: "trace ?wm = trace ?wl @ m"
    using match_terms_appends [of U "fst (load_terms cfg ?wc)" "text" ?wl]
    by (auto simp: prepare_def split_beta)
  obtain y where y: "trace (snd (online U cfg text fromL toL db ?wc)) = trace ?wm @ y"
    using online_after_prepare by blast
  have a: "trace ?wl = trace w @ (x @ z)" by (simp add: x z)
  have "trace (snd (translate U text fromL toL cfg w)) = trace ?wm @ y"
    by (simp add: translate_online [OF on] y)
  from since_chain [OF a m this] e show ?thesis
    by simp
qed

lemma tail_event_of_call:
  assumes on: "fst (cache_lookup cfg text fromL toL w) = Online db"
    and e: "e \<in> set (events_since (snd (prepare U cfg text fromL toL (snd (cache_lookup cfg text fromL toL w))))
        (snd (translate U text fromL toL cfg w)))"
  shows "e \<in> set (events_since w (snd (translate U text fromL toL cfg w)))"
proof -
  let ?wc = "snd (cache_lookup cfg text fromL toL w)"
  let ?wm = "snd (prepare U cfg text fromL toL ?wc)"
  obtain x where x: "trace ?wc = trace w @ x"
    using cache_lookup_appends by blast
  obtain z where z: "trace ?wm = trace ?wc @ z"
    using quiet_appends [OF quiet_prepare] by blast
  obtain y where y: "trace (snd (online U cfg text fromL toL db ?wc)) = trace ?wm @ y"
    using online_after_prepare by blast
  have a: "trace ?wm = trace w @ (x @ z)" by (simp add: x z)
  have b: "trace (snd (translate U text fromL toL cfg w)) = trace ?wm @ y"
    by (simp add: translate_online [OF on] y)
  show ?thesis
    using e by (simp add: events_since_def a b)
qed

text \<open>The write-back is attempted whenever there is a handle and a translation.\<close>

lemma online_write_attempted:
  assumes "fetch w (fst (prepare U cfg text fromL toL w)) = Some res" "ok res"
    and "normalize_response (data res) \<noteq> []"
  shows "Exec h (ReplaceTranslation text fromL toL (normalize_response (data res))) \<in>
    set (events_since (snd (prepare U cfg text fromL toL w))
      (snd (online U cfg text fromL toL (Some h) w)))"
  using assms quiet_fetch [OF quiet_prepare] quiet_exec_fails [OF quiet_prepare]
  by (cases "exec_fails w h (ReplaceTranslation text fromL toL (normalize_response (data res)))")
    (simp_all add: online_def split_beta Let_def write_back_failed write_back_stored emit_def
      events_since_def)

lemma translate_write_attempted:
  assumes on: "fst (cache_lookup cfg text fromL toL w) = Online (Some h)"
    and f: "fetch w (request_of U text fromL toL cfg w) = Some res" "ok res"
      "normalize_response (data res) \<noteq> []"
  shows "Exec h (ReplaceTranslation text fromL toL (normalize_response (data res))) \<in>
    set (events_since w (snd (translate U text fromL toL cfg w)))"
proof -
  let ?wc = "snd (cache_lookup cfg text fromL toL w)"
  have g: "fetch ?wc (fst (prepare U cfg text fromL toL ?wc)) = Some res"
    using f(1) by (simp add: request_of_def cache_lookup_fetch)
  have "Exec h (ReplaceTranslation text fromL toL (normalize_response (data res))) \<in>
      set (events_since (snd (prepare U cfg text fromL toL ?wc))
        (snd (translate U text fromL toL cfg w)))"
    using online_write_attempted [OF g f(2) f(3)] by (simp add: translate_online [OF on])
  then show ?thesis
    by (rule tail_event_of_call [OF on])
qed

lemma translate_stored:
  assumes on: "fst (cache_lookup cfg text fromL toL w) = Online (Some h)"
    and f: "fetch w (request_of U text fromL toL cfg w) = Some res" "ok res"
      "normalize_response (data res) \<noteq> []"
      "\<not> exec_fails w h (ReplaceTranslation text fromL toL (normalize_response (data res)))"
  shows "translations_tbl (stores (snd (translate U text fromL toL cfg w)) h) (text, fromL, toL) =
    Some (normalize_response (data res))"
proof -
  let ?wc = "snd (cache_lookup cfg text fromL toL w)"
  have e: "same_env w ?wc"
    by (rule only_logs_same_env [OF only_logs_cache_lookup])
  have g: "fetch ?wc (fst (prepare U cfg text fromL toL ?wc)) = Some res"
    using f(1) by (simp add: request_of_def cache_lookup_fetch)
  have x: "\<not> exec_fails ?wc h (ReplaceTranslation text fromL toL (normalize_response (data res)))"
    using f(4) e by (simp add: same_env_def)
  show ?thesis
    using online_stored [OF g f(2) f(3) x] by (simp add: translate_online [OF on])
qed

text \<open>Without a handle the online part writes nothing.\<close>

lemma online_none_writes:
  "\<exists>evs. trace (snd (online U cfg text fromL toL None w)) = trace w @ evs \<and>
     \<not> list_ex cache_write evs"
proof -
  let ?req = "fst (prepare U cfg text fromL toL w)"
  let ?w2 = "snd (prepare U cfg text fromL toL w)"
  obtain evs1 where e1: "trace ?w2 = trace w @ evs1" "\<not> list_ex cache_write evs1"
    using quiet_prepare [of w U cfg "text" fromL toL] no_write_quiet
    unfolding quiet_def by blast
  show ?thesis
  proof (cases "fetch (emit (Fetch ?req) ?w2) ?req")
    case None
    then have "trace (snd (online U cfg text fromL toL None w)) = trace w @ (evs1 @ [Fetch ?req])"
      using e1 by (simp add: online_def split_beta Let_def emit_def)
    moreover have "\<not> list_ex cache_write (evs1 @ [Fetch ?req])"
      using e1 by simp
    ultimately show ?thesis by blast
  next
    case (Some res)
    show ?thesis
    proof (cases "ok res")
      case False
      then have "trace (snd (online U cfg text fromL toL None w)) =
          trace w @ (evs1 @ [Fetch ?req, Error (ApiFailed (status res) (data res))])"
        using e1 Some by (simp add: online_def split_beta Let_def emit_def)
      moreover have "\<not> list_ex cache_write
          (evs1 @ [Fetch ?req, Error (ApiFailed (status res) (data res))])"
        using e1 by simp
      ultimately show ?thesis by blast
    next
      case True
      then have "trace (snd (online U cfg text fromL toL None w)) =
          trace w @ (evs1 @ [Fetch ?req, Info OnlineApi])"
        using e1 Some by (simp add: online_def split_beta Let_def emit_def write_back_skipped)
      moreover have "\<not> list_ex cache_write (evs1 @ [Fetch ?req, Info OnlineApi])"
        using e1 by simp
      ultimately show ?thesis by blast
    qed
  qed
qed

lemma translate_none_writes:
  assumes on: "fst (cache_lookup cfg text fromL toL w) = Online None"
  shows "\<not> list_ex cache_write (events_since w (snd (translate U text fromL toL cfg w))) \<and>
    (\<forall>h. translations_tbl (stores (snd (translate U text fromL toL cfg w)) h) =
         translations_tbl (stores w h))"
proof -
  obtain pre where wc: "snd (cache_lookup cfg text fromL toL w) = w\<lparr>trace := trace w @ pre\<rparr>"
    and pre: "\<not> list_ex cache_write pre"
    using cache_lookup_trace by blast
  let ?wc = "w\<lparr>trace := trace w @ pre\<rparr>"
  have tr: "translate U text fromL toL cfg w = online U cfg text fromL toL None ?wc"
    using translate_online [OF on, of U] by (simp add: wc)
  obtain evs where evs: "trace (snd (online U cfg text fromL toL None ?wc)) = trace ?wc @ evs"
    "\<not> list_ex cache_write evs"
    using online_none_writes by blast
  have "trace (snd (translate U text fromL toL cfg w)) = trace w @ (pre @ evs)"
    using evs(1) by (simp add: tr)
  then have "events_since w (snd (translate U text fromL toL cfg w)) = pre @ evs"
    by (rule events_since_eq)
  then have "\<not> list_ex cache_write (events_since w (snd (translate U text fromL toL cfg w)))"
    using pre evs(2) by simp
  moreover have "translations_tbl (stores (snd (translate U text fromL toL cfg w)) h) =
      translations_tbl (stores w h)" for h
    using online_none_translations [of U cfg "text" fromL toL ?wc h] by (simp add: tr)
  ultimately show ?thesis by blast
qed

text \<open>
  Claim C4, as stated, fails: when the store is loaded and only the creation of its table
  fails, the handle stays set, and the call does not go on as if there were no cache:
  after the remote call it executes the statement that writes the translation, and the
  store holds the translation afterwards. With no cache configured the same call
  executes no statement.
\<close>

theorem C4_counterexample:
  "exec_fails (world_noschema (Str nihao)) db0 CreateTranslations \<and>
   translations_tbl (stores (world_noschema (Str nihao)) db0) (hello, en, zh) = None \<and>
   Warn DatabaseError \<in> set (trace (snd (translate U0 hello en zh cfg0 (world_noschema (Str nihao))))) \<and>
   Exec db0 (ReplaceTranslation hello en zh nihao) \<in>
     set (trace (snd (translate U0 hello en zh cfg0 (world_noschema (Str nihao))))) \<and>
   translations_tbl (stores (snd (translate U0 hello en zh cfg0 (world_noschema (Str nihao)))) db0)
     (hello, en, zh) = Some nihao \<and>
   trace (snd (translate U0 hello en zh (cfg0\<lparr>databaseFile := Undefined\<rparr>) (world_noschema (Str nihao)))) =
     [Fetch (request_of U0 hello en zh (cfg0\<lparr>databaseFile := Undefined\<rparr>) (world_noschema (Str nihao))),
      Info OnlineApi]"
  by (simp add: translate_def cache_defs online_def prepare_def load_terms_def match_terms_def
      build_request_def write_back_def normalize_response_def content_of_def sentinel_def
      example_defs variant_defs split_beta Let_def request_of_def)

text \<open>
  Claim C4, amended. When the cache store is configured but its path cannot be resolved,
  the store cannot be loaded or the table cannot be created, the call still completes:
  the failure is logged as a warning, the cache is not queried, exactly one request is
  sent, and the caller gets what the remote call gives (the normalized translation when
  the response is ok). When the path cannot be resolved or the store cannot be loaded, the
  call goes on as without a cache: no statement writes a translation and no table of
  translations changes. When the store is loaded and only the creation of the table
  fails, the handle stays: after an ok response with a non-empty normalized translation
  the statement that writes it is executed, and the store holds the translation unless
  that statement fails.
\<close>

theorem C4_cache_store_fails_open:
  assumes cfgd: "configured (databaseFile cfg)"
    and broken: "fst (resolvePath (databaseFile cfg) w) = None \<or>
      (\<exists>p. fst (resolvePath (databaseFile cfg) w) = Some p \<and>
         (load_fails w (db_url p) \<or> exec_fails w (db_url p) CreateTranslations))"
  shows "Warn DatabaseError \<in> set (events_since w (snd (translate U text fromL toL cfg w))) \<and>
    \<not> list_ex cache_read (events_since w (snd (translate U text fromL toL cfg w))) \<and>
    requests (snd (translate U text fromL toL cfg w)) =
      requests w @ [request_of U text fromL toL cfg w] \<and>
    fst (translate U text fromL toL cfg w) =
      outcome (fetch w (request_of U text fromL toL cfg w)) \<and>
    (fst (resolvePath (databaseFile cfg) w) = None \<or>
     (\<exists>p. fst (resolvePath (databaseFile cfg) w) = Some p \<and> load_fails w (db_url p)) \<longrightarrow>
       \<not> list_ex cache_write (events_since w (snd (translate U text fromL toL cfg w))) \<and>
       (\<forall>h. translations_tbl (stores (snd (translate U text fromL toL cfg w)) h) =
            translations_tbl (stores w h))) \<and>
    (\<forall>p res. fst (resolvePath (databaseFile cfg) w) = Some p \<and> \<not> load_fails w (db_url p) \<and>
       fetch w (request_of U text fromL toL cfg w) = Some res \<and> ok res \<and>
       normalize_response (data res) \<noteq> [] \<longrightarrow>
       Exec (db_url p) (ReplaceTranslation text fromL toL (normalize_response (data res))) \<in>
         set (events_since w (snd (translate U text fromL toL cfg w))) \<and>
       (\<not> exec_fails w (db_url p)
            (ReplaceTranslation text fromL toL (normalize_response (data res))) \<longrightarrow>
          translations_tbl (stores (snd (translate U text fromL toL cfg w)) (db_url p))
            (text, fromL, toL) = Some (normalize_response (data res))))"
proof -
  have "\<exists>db pre. cache_lookup cfg text fromL toL w = (Online db, w\<lparr>trace := trace w @ pre\<rparr>) \<and>
      Warn DatabaseError \<in> set pre \<and> \<not> list_ex cache_read pre"
  proof -
    have a: ?thesis if a: "fst (resolvePath (databaseFile cfg) w) = None"
      using cache_lookup_no_path [OF cfgd a, of "text" fromL toL]
      by (intro exI conjI, assumption) (simp_all add: no_read_path_warning)
    have b: ?thesis
      if b: "fst (resolvePath (databaseFile cfg) w) = Some p" "load_fails w (db_url p)" for p
      using cache_lookup_no_load [OF cfgd b, of "text" fromL toL]
      by (intro exI conjI, assumption) (simp_all add: no_read_path_warning)
    have c: ?thesis
      if c: "fst (resolvePath (databaseFile cfg) w) = Some p" "\<not> load_fails w (db_url p)"
        "exec_fails w (db_url p) CreateTranslations" for p
      using cache_lookup_no_schema [OF cfgd c, of "text" fromL toL]
      by (intro exI conjI, assumption) (simp_all add: no_read_path_warning)
    from broken show ?thesis
    proof (elim disjE exE conjE)
      assume "fst (resolvePath (databaseFile cfg) w) = None"
      then show ?thesis by (rule a)
    next
      fix p
      assume "fst (resolvePath (databaseFile cfg) w) = Some p" "load_fails w (db_url p)"
      then show ?thesis by (rule b)
    next
      fix p
      assume p: "fst (resolvePath (databaseFile cfg) w) = Some p"
        and e: "exec_fails w (db_url p) CreateTranslations"
      show ?thesis
      proof (cases "load_fails w (db_url p)")
        case True
        with p show ?thesis by (rule b)
      next
        case False
        with p show ?thesis using e by (rule c)
      qed
    qed
  qed
  then obtain db pre where cl: "cache_lookup cfg text fromL toL w = (Online db, w\<lparr>trace := trace w @ pre\<rparr>)"
    and pre: "Warn DatabaseError \<in> set pre" "\<not> list_ex cache_read pre"
    by blast
  let ?wc = "w\<lparr>trace := trace w @ pre\<rparr>"
  have on: "fst (cache_lookup cfg text fromL toL w) = Online db"
    and wc: "snd (cache_lookup cfg text fromL toL w) = ?wc"
    using cl by simp_all
  have tr: "translate U text fromL toL cfg w = online U cfg text fromL toL db ?wc"
    using translate_online [OF on, of U] by (simp add: wc)
  obtain evs where evs: "trace (snd (online U cfg text fromL toL db ?wc)) = trace ?wc @ evs"
    "\<not> list_ex cache_read evs"
    using online_trace by blast
  have "trace (snd (translate U text fromL toL cfg w)) = trace w @ (pre @ evs)"
    using evs(1) by (simp add: tr)
  then have ev: "events_since w (snd (translate U text fromL toL cfg w)) = pre @ evs"
    by (rule events_since_eq)
  have 1: "Warn DatabaseError \<in> set (events_since w (snd (translate U text fromL toL cfg w)))"
    using pre(1) by (simp add: ev)
  have 2: "\<not> list_ex cache_read (events_since w (snd (translate U text fromL toL cfg w)))"
    using pre(2) evs(2) by (simp add: ev)
  have 3: "requests (snd (translate U text fromL toL cfg w)) =
      requests w @ [request_of U text fromL toL cfg w]"
    by (rule translate_online_requests [OF on])
  have 4: "fst (translate U text fromL toL cfg w) =
      outcome (fetch w (request_of U text fromL toL cfg w))"
    by (rule translate_online_result [OF on])
  have 5: "\<not> list_ex cache_write (events_since w (snd (translate U text fromL toL cfg w))) \<and>
       (\<forall>h. translations_tbl (stores (snd (translate U text fromL toL cfg w)) h) =
            translations_tbl (stores w h))"
    if "fst (resolvePath (databaseFile cfg) w) = None \<or>
     (\<exists>p. fst (resolvePath (databaseFile cfg) w) = Some p \<and> load_fails w (db_url p))"
  proof -
    have "fst (cache_lookup cfg text fromL toL w) = Online None"
      using that cache_lookup_no_path [OF cfgd, of w "text" fromL toL]
        cache_lookup_no_load [OF cfgd, of w _ "text" fromL toL]
      by (elim disjE exE conjE) simp_all
    then show ?thesis
      by (rule translate_none_writes)
  qed
  have 6: "Exec (db_url p) (ReplaceTranslation text fromL toL (normalize_response (data res))) \<in>
         set (events_since w (snd (translate U text fromL toL cfg w))) \<and>
       (\<not> exec_fails w (db_url p)
            (ReplaceTranslation text fromL toL (normalize_response (data res))) \<longrightarrow>
          translations_tbl (stores (snd (translate U text fromL toL cfg w)) (db_url p))
            (text, fromL, toL) = Some (normalize_response (data res)))"
    if h: "fst (resolvePath (databaseFile cfg) w) = Some p" "\<not> load_fails w (db_url p)"
      "fetch w (request_of U text fromL toL cfg w) = Some res" "ok res"
      "normalize_response (data res) \<noteq> []" for p res
  proof -
    have "exec_fails w (db_url p) CreateTranslations"
      using broken h(1,2) by auto
    then have o: "fst (cache_lookup cfg text fromL toL w) = Online (Some (db_url p))"
      using cache_lookup_no_schema [OF cfgd h(1) h(2), of "text" fromL toL] by simp
    show ?thesis
      using translate_write_attempted [OF o h(3) h(4) h(5)]
        translate_stored [OF o h(3) h(4) h(5)]
      by blast
  qed
  show ?thesis
    using 1 2 3 4 5 6 by blast
qed

theorem C7_witness:
  "forceOnlineBool cfg_forced \<and>
   translations_tbl (stores (world_cached (Str (nihao @ sentinel))) db0) (hello, en, zh) =
     Some (ascii ''old'') \<and>
   \<not> list_ex cache_read (trace (snd (translate U0 hello en zh cfg_forced (world_cached (Str (nihao @ sentinel)))))) \<and>
   fst (translate U0 hello en zh cfg_forced (world_cached (Str (nihao @ sentinel)))) = Inr nihao \<and>
   translations_tbl
     (stores (snd (translate U0 hello en zh cfg_forced (world_cached (Str (nihao @ sentinel))))) db0)
     (hello, en, zh) = Some nihao \<and>
   translations_tbl
     (stores (snd (translate U0 hello en zh cfg_forced (world_cached (Str [32])))) db0)
     (hello, en, zh) = Some (ascii ''old'')"
proof -
  let ?w = "world_cached (Str (nihao @ sentinel))"
  let ?res = "reply (Str (nihao @ sentinel))"
  let ?v = "world_cached (Str [32])"
  have n: "normalize_response (data ?res) = nihao" "nihao \<noteq> []"
    "normalize_response (data (reply (Str [32]))) = []"
    by (simp_all add: normalize_response_defs reply_def nihao_def)
  have u: "db_url (Str (ascii ''/c/cache.db'')) = db0"
    by (simp add: db_url_def db0_def ascii_def)
  have h1: "configured (databaseFile cfg_forced)"
    by (simp add: configured_def variant_defs example_defs trim_def is_space_def ascii_def)
  have h2: "forceOnlineBool cfg_forced"
    by (simp add: forceOnlineBool_def variant_defs example_defs)
  have h3: "fst (resolvePath (databaseFile cfg_forced) ?w) = Some (Str (ascii ''/c/cache.db''))"
    by (simp add: resolvePath_def variant_defs example_defs ascii_def)
  have h4: "\<not> load_fails ?w d" "\<not> exec_fails ?w d st" for d st
    by (simp_all add: variant_defs example_defs)
  have h5: "fetch ?w r = Some ?res" "ok ?res" "fetch ?v r = Some (reply (Str [32]))"
    "ok (reply (Str [32]))" for r
    by (simp_all add: variant_defs world0_def reply_def)
  have old: "translations_tbl (stores ?w db0) (hello, en, zh) = Some (ascii ''old'')"
    "translations_tbl (stores ?v db0) (hello, en, zh) = Some (ascii ''old'')"
    by (simp_all add: variant_defs)
  have t: "trace ?w = []"
    by (simp add: variant_defs world0_def)
  note T = C7_force_online_skips_read_keeps_write [OF h2, of ?w U0 hello en zh]
  note V = C7_force_online_skips_read_keeps_write [OF h2, of ?v U0 hello en zh]
  have 1: "\<not> list_ex cache_read (trace (snd (translate U0 hello en zh cfg_forced ?w)))"
    using T [THEN conjunct1] by (simp add: events_since_def t)
  have 2: "fst (translate U0 hello en zh cfg_forced ?w) = Inr nihao \<and>
     translations_tbl (stores (snd (translate U0 hello en zh cfg_forced ?w)) db0) (hello, en, zh) =
       Some nihao"
    using T [THEN conjunct2, THEN conjunct2, THEN conjunct2, THEN conjunct1, rule_format,
        of "Str (ascii ''/c/cache.db'')" ?res]
    by (simp add: h1 h3 h4 h5 n u)
  have 3: "translations_tbl (stores (snd (translate U0 hello en zh cfg_forced ?v)) db0) (hello, en, zh) =
      Some (ascii ''old'')"
    using V [THEN conjunct2, THEN conjunct2, THEN conjunct2, THEN conjunct2, rule_format,
        of "reply (Str [32])"]
    by (simp add: h5 n old)
  show ?thesis
    using h2 old 1 2 3 by simp
qed

theorem C4_witness:
  "fst (translate U0 hello en zh cfg0 (world_noload (Str nihao))) = Inr nihao \<and>
   Warn DatabaseError \<in> set (trace (snd (translate U0 hello en zh cfg0 (world_noload (Str nihao))))) \<and>
   \<not> list_ex cache_write (trace (snd (translate U0 hello en zh cfg0 (world_noload (Str nihao))))) \<and>
   fst (translate U0 hello en zh cfg0 (world_noschema (Str nihao))) = Inr nihao \<and>
   Warn DatabaseError \<in> set (trace (snd (translate U0 hello en zh cfg0 (world_noschema (Str nihao))))) \<and>
   Exec db0 (ReplaceTranslation hello en zh nihao) \<in>
     set (trace (snd (translate U0 hello en zh cfg0 (world_noschema (Str nihao)))))"
proof -
  let ?res = "reply (Str nihao)"
  let ?p = "Str (ascii ''/c/cache.db'')"
  have n: "outcome (Some ?res) = Inr nihao" "normalize_response (data ?res) = nihao"
    "nihao \<noteq> []" "ok ?res"
    by (simp_all add: outcome_def normalize_response_defs reply_def nihao_def)
  have u: "db_url ?p = db0"
    by (simp add: db_url_def db0_def ascii_def)
  have c: "configured (databaseFile cfg0)"
    by (simp add: configured_def example_defs trim_def is_space_def ascii_def)
  have p1: "fst (resolvePath (databaseFile cfg0) (world_noload (Str nihao))) = Some ?p"
    and p2: "fst (resolvePath (databaseFile cfg0) (world_noschema (Str nihao))) = Some ?p"
    by (simp_all add: resolvePath_def variant_defs example_defs ascii_def)
  have l: "load_fails (world_noload (Str nihao)) d" "\<not> load_fails (world_noschema (Str nihao)) d"
    "exec_fails (world_noschema (Str nihao)) d CreateTranslations" for d
    by (simp_all add: variant_defs world0_def)
  have b1: "fst (resolvePath (databaseFile cfg0) (world_noload (Str nihao))) = None \<or>
      (\<exists>p. fst (resolvePath (databaseFile cfg0) (world_noload (Str nihao))) = Some p \<and>
         (load_fails (world_noload (Str nihao)) (db_url p) \<or>
          exec_fails (world_noload (Str nihao)) (db_url p) CreateTranslations))"
    by (simp add: p1 l)
  have b2: "fst (resolvePath (databaseFile cfg0) (world_noschema (Str nihao))) = None \<or>
      (\<exists>p. fst (resolvePath (databaseFile cfg0) (world_noschema (Str nihao))) = Some p \<and>
         (load_fails (world_noschema (Str nihao)) (db_url p) \<or>
          exec_fails (world_noschema (Str nihao)) (db_url p) CreateTranslations))"
    by (simp add: p2 l)
  have f: "fetch (world_noload (Str nihao)) r = Some ?res"
    "fetch (world_noschema (Str nihao)) r = Some ?res" for r
    by (simp_all add: variant_defs world0_def)
  have t: "trace (world_noload (Str nihao)) = []" "trace (world_noschema (Str nihao)) = []"
    by (simp_all add: variant_defs world0_def)
  note A = C4_cache_store_fails_open [OF c b1, of U0 hello en zh]
  note B = C4_cache_store_fails_open [OF c b2, of U0 hello en zh]
  have 1: "fst (translate U0 hello en zh cfg0 (world_noload (Str nihao))) = Inr nihao \<and>
      Warn DatabaseError \<in> set (trace (snd (translate U0 hello en zh cfg0 (world_noload (Str nihao)))))"
    using A [THEN conjunct1] A [THEN conjunct2, THEN conjunct2, THEN conjunct2, THEN conjunct1]
    by (simp add: f n t events_since_def)
  have 2: "\<not> list_ex cache_write (trace (snd (translate U0 hello en zh cfg0 (world_noload (Str nihao)))))"
    using A [THEN conjunct2, THEN conjunct2, THEN conjunct2, THEN conjunct2, THEN conjunct1]
    by (simp add: p1 l t events_since_def)
  have 3: "fst (translate U0 hello en zh cfg0 (world_noschema (Str nihao))) = Inr nihao \<and>
      Warn DatabaseError \<in> set (trace (snd (translate U0 hello en zh cfg0 (world_noschema (Str nihao)))))"
    using B [THEN conjunct1] B [THEN conjunct2, THEN conjunct2, THEN conjunct2, THEN conjunct1]
    by (simp add: f n t events_since_def)
  have 4: "Exec db0 (ReplaceTranslation hello en zh nihao) \<in>
     set (trace (snd (translate U0 hello en zh cfg0 (world_noschema (Str nihao)))))"
    using B [THEN conjunct2, THEN conjunct2, THEN conjunct2, THEN conjunct2, THEN conjunct2,
        rule_format, of ?p ?res, THEN conjunct1]
    by (simp add: p2 l f n u t events_since_def)
  show ?thesis
    using 1 2 3 4 by simp
qed

text \<open>
  Claim C1, as stated, fails: with force-online unset and a cache store that opens, two
  calls with the same text and languages send two requests when the provider's content
  normalizes to the empty string, because an empty translation is not written back.
\<close>

theorem C1_counterexample:
  "configured (databaseFile cfg0) \<and> \<not> forceOnlineBool cfg0 \<and>
   fst (cache_lookup cfg0 hello en zh (world0 (Str []))) = Online (Some db0) \<and>
   length (requests (snd (translate U0 hello en zh cfg0
      (snd (translate U0 hello en zh cfg0 (world0 (Str []))))))) = 2"
  by (simp add: translate_def cache_defs online_def prepare_def load_terms_def match_terms_def
      build_request_def write_back_def normalize_response_def content_of_def sentinel_def
      example_defs split_beta Let_def requests_def)

text \<open>
  Claim C1, amended. With force-online unset and a cache store that opens and can be
  queried: if the cache holds an entry for (text, source language, target language), the
  call returns the cached text and does nothing but open the store, query it and log the
  hit (no remote call, no term resolution, no change of a store). If it holds none, and the
  remote call of the first call succeeds with a non-empty normalized translation that is
  written back, then two calls in a row return that translation and send exactly one
  request between them, the second call ending at the cache.
\<close>

theorem C1_cache_hit_and_repeated_call:
  assumes cfgd: "configured (databaseFile cfg)" and unforced: "\<not> forceOnlineBool cfg"
    and path: "fst (resolvePath (databaseFile cfg) w) = Some p"
    and opened: "\<not> load_fails w (db_url p)" "\<not> exec_fails w (db_url p) CreateTranslations"
    and query: "\<not> exec_fails w (db_url p) (SelectTranslation text fromL toL)"
  shows "(\<forall>t. translations_tbl (stores w (db_url p)) (text, fromL, toL) = Some t \<longrightarrow>
       translate U text fromL toL cfg w =
         (Inr t, w\<lparr>trace := trace w @ path_warning (databaseFile cfg) @
            [Load (db_url p), Exec (db_url p) CreateTranslations,
             Exec (db_url p) (SelectTranslation text fromL toL), Info CacheHitMsg]\<rparr>)) \<and>
    (\<forall>res. translations_tbl (stores w (db_url p)) (text, fromL, toL) = None \<and>
       fetch w (request_of U text fromL toL cfg w) = Some res \<and> ok res \<and>
       normalize_response (data res) \<noteq> [] \<and>
       \<not> exec_fails w (db_url p)
           (ReplaceTranslation text fromL toL (normalize_response (data res))) \<longrightarrow>
       fst (translate U text fromL toL cfg w) = Inr (normalize_response (data res)) \<and>
       fst (translate U text fromL toL cfg (snd (translate U text fromL toL cfg w))) =
         Inr (normalize_response (data res)) \<and>
       fst (cache_lookup cfg text fromL toL (snd (translate U text fromL toL cfg w))) =
         CacheHit (normalize_response (data res)) \<and>
       requests (snd (translate U text fromL toL cfg (snd (translate U text fromL toL cfg w)))) =
         requests w @ [request_of U text fromL toL cfg w])"
proof (intro conjI allI impI)
  fix t
  assume "translations_tbl (stores w (db_url p)) (text, fromL, toL) = Some t"
  then have "cache_lookup cfg text fromL toL w =
    (CacheHit t, w\<lparr>trace := trace w @ path_warning (databaseFile cfg) @
       [Load (db_url p), Exec (db_url p) CreateTranslations,
        Exec (db_url p) (SelectTranslation text fromL toL), Info CacheHitMsg]\<rparr>)"
    by (rule cache_lookup_hit [OF cfgd unforced path opened query])
  then show "translate U text fromL toL cfg w =
         (Inr t, w\<lparr>trace := trace w @ path_warning (databaseFile cfg) @
            [Load (db_url p), Exec (db_url p) CreateTranslations,
             Exec (db_url p) (SelectTranslation text fromL toL), Info CacheHitMsg]\<rparr>)"
    by (simp add: translate_def)
next
  fix res
  assume a: "translations_tbl (stores w (db_url p)) (text, fromL, toL) = None \<and>
       fetch w (request_of U text fromL toL cfg w) = Some res \<and> ok res \<and>
       normalize_response (data res) \<noteq> [] \<and>
       \<not> exec_fails w (db_url p)
           (ReplaceTranslation text fromL toL (normalize_response (data res)))"
  let ?t = "normalize_response (data res)"
  let ?pre = "path_warning (databaseFile cfg) @
       [Load (db_url p), Exec (db_url p) CreateTranslations,
        Exec (db_url p) (SelectTranslation text fromL toL), Info CacheMiss]"
  let ?wc = "w\<lparr>trace := trace w @ ?pre\<rparr>"
  let ?w1 = "snd (translate U text fromL toL cfg w)"
  have cl: "cache_lookup cfg text fromL toL w = (Online (Some (db_url p)), ?wc)"
    using a by (intro cache_lookup_miss [OF cfgd unforced path opened query]) simp
  then have on: "fst (cache_lookup cfg text fromL toL w) = Online (Some (db_url p))"
    and wc: "snd (cache_lookup cfg text fromL toL w) = ?wc"
    by simp_all
  have tr: "translate U text fromL toL cfg w = online U cfg text fromL toL (Some (db_url p)) ?wc"
    using translate_online [OF on, of U] by (simp add: wc)
  have r1: "fst (translate U text fromL toL cfg w) = Inr ?t"
    using translate_online_result [OF on, of U] a by (simp add: outcome_def)
  have fc: "fetch ?wc (fst (prepare U cfg text fromL toL ?wc)) = Some res"
    using a by (simp add: request_of_def wc)
  have ef: "\<not> exec_fails ?wc (db_url p) (ReplaceTranslation text fromL toL ?t)"
    using a by simp
  have st: "translations_tbl (stores ?w1 (db_url p)) (text, fromL, toL) = Some ?t"
    using online_stored [OF fc _ _ ef] a by (simp add: tr)
  have env: "same_env w ?w1"
    by (rule translate_same_env)
  have path1: "fst (resolvePath (databaseFile cfg) ?w1) = Some p"
    using resolvePath_env [OF env] path by simp
  have opened1: "\<not> load_fails ?w1 (db_url p)" "\<not> exec_fails ?w1 (db_url p) CreateTranslations"
    and query1: "\<not> exec_fails ?w1 (db_url p) (SelectTranslation text fromL toL)"
    using env opened query by (simp_all add: same_env_def)
  have hit: "fst (cache_lookup cfg text fromL toL ?w1) = CacheHit ?t"
    using cache_lookup_hit [OF cfgd unforced path1 opened1 query1 st] by simp
  have r2: "fst (translate U text fromL toL cfg ?w1) = Inr ?t"
    using translate_hit [OF hit, of U] by simp
  have rq: "requests (snd (translate U text fromL toL cfg ?w1)) =
      requests w @ [request_of U text fromL toL cfg w]"
    using translate_hit_requests [OF hit, of U] translate_online_requests [OF on, of U] by simp
  show "fst (translate U text fromL toL cfg w) = Inr ?t" by (rule r1)
  show "fst (translate U text fromL toL cfg ?w1) = Inr ?t" by (rule r2)
  show "fst (cache_lookup cfg text fromL toL ?w1) = CacheHit ?t" by (rule hit)
  show "requests (snd (translate U text fromL toL cfg ?w1)) =
      requests w @ [request_of U text fromL toL cfg w]" by (rule rq)
qed

lemma requests_trace: "requests (w\<lparr>trace := tr\<rparr>) = concat (map fetched tr)"
  by (simp add: requests_def)

theorem C1_witness:
  "fst (translate U0 hello en zh cfg0 (world_cached (Str nihao))) = Inr (ascii ''old'') \<and>
   requests (snd (translate U0 hello en zh cfg0 (world_cached (Str nihao)))) = [] \<and>
   fst (translate U0 hello en zh cfg0 (world0 (Str (nihao @ sentinel)))) = Inr nihao \<and>
   fst (translate U0 hello en zh cfg0
      (snd (translate U0 hello en zh cfg0 (world0 (Str (nihao @ sentinel)))))) = Inr nihao \<and>
   length (requests (snd (translate U0 hello en zh cfg0
      (snd (translate U0 hello en zh cfg0 (world0 (Str (nihao @ sentinel)))))))) = 1"
proof -
  let ?p = "Str (ascii ''/c/cache.db'')"
  let ?res = "reply (Str (nihao @ sentinel))"
  have u: "db_url ?p = db0"
    by (simp add: db_url_def db0_def ascii_def)
  have n: "normalize_response (data ?res) = nihao"
    by (simp add: normalize_response_defs reply_def nihao_def)
  have c: "configured (databaseFile cfg0)"
    by (simp add: configured_def example_defs trim_def is_space_def ascii_def)
  have f: "\<not> forceOnlineBool cfg0"
    by (simp add: forceOnlineBool_def example_defs)
  have hit: "fst (resolvePath (databaseFile cfg0) (world_cached (Str nihao))) = Some ?p"
    "\<not> load_fails (world_cached (Str nihao)) (db_url ?p)"
    "\<not> exec_fails (world_cached (Str nihao)) (db_url ?p) CreateTranslations"
    "\<not> exec_fails (world_cached (Str nihao)) (db_url ?p) (SelectTranslation hello en zh)"
    by (simp_all add: resolvePath_def variant_defs example_defs ascii_def)
  have old: "translations_tbl (stores (world_cached (Str nihao)) (db_url ?p)) (hello, en, zh) =
      Some (ascii ''old'')"
    by (simp add: variant_defs)
  have miss: "fst (resolvePath (databaseFile cfg0) (world0 (Str (nihao @ sentinel)))) = Some ?p"
    "\<not> load_fails (world0 (Str (nihao @ sentinel))) (db_url ?p)"
    "\<not> exec_fails (world0 (Str (nihao @ sentinel))) (db_url ?p) CreateTranslations"
    "\<not> exec_fails (world0 (Str (nihao @ sentinel))) (db_url ?p) (SelectTranslation hello en zh)"
    by (simp_all add: resolvePath_def example_defs ascii_def)
  have none: "translations_tbl (stores (world0 (Str (nihao @ sentinel))) (db_url ?p)) (hello, en, zh) = None"
    by (simp add: world0_def empty_store_def)
  have ans: "fetch (world0 (Str (nihao @ sentinel))) r = Some ?res" for r
    by (simp add: world0_def)
  have okr: "ok ?res"
    by (simp add: reply_def)
  have ne: "normalize_response (data ?res) \<noteq> []"
    unfolding n by (simp add: nihao_def)
  have wr: "\<not> exec_fails (world0 (Str (nihao @ sentinel))) (db_url ?p)
      (ReplaceTranslation hello en zh (normalize_response (data ?res)))"
    by (simp add: world0_def)
  have t0: "trace (world_cached (Str nihao)) = []" "requests (world0 (Str (nihao @ sentinel))) = []"
    by (simp_all add: variant_defs world0_def requests_def)
  have pw: "path_warning (databaseFile cfg0) = []"
    by (simp add: path_warning_def example_defs ascii_def)
  have A: "translate U0 hello en zh cfg0 (world_cached (Str nihao)) =
      (Inr (ascii ''old''), (world_cached (Str nihao))\<lparr>trace := trace (world_cached (Str nihao)) @
         path_warning (databaseFile cfg0) @
         [Load (db_url ?p), Exec (db_url ?p) CreateTranslations,
          Exec (db_url ?p) (SelectTranslation hello en zh), Info CacheHitMsg]\<rparr>)"
    using C1_cache_hit_and_repeated_call [OF c f hit, of U0] old by blast
  have B: "fst (translate U0 hello en zh cfg0 (world0 (Str (nihao @ sentinel)))) =
        Inr (normalize_response (data ?res)) \<and>
      fst (translate U0 hello en zh cfg0
        (snd (translate U0 hello en zh cfg0 (world0 (Str (nihao @ sentinel)))))) =
        Inr (normalize_response (data ?res)) \<and>
      fst (cache_lookup cfg0 hello en zh
        (snd (translate U0 hello en zh cfg0 (world0 (Str (nihao @ sentinel)))))) =
        CacheHit (normalize_response (data ?res)) \<and>
      requests (snd (translate U0 hello en zh cfg0
        (snd (translate U0 hello en zh cfg0 (world0 (Str (nihao @ sentinel))))))) =
        requests (world0 (Str (nihao @ sentinel))) @
          [request_of U0 hello en zh cfg0 (world0 (Str (nihao @ sentinel)))]"
    using C1_cache_hit_and_repeated_call [OF c f miss, of U0] none ans okr ne wr by blast
  show ?thesis
    using A B by (simp add: n t0 pw requests_trace)
qed

lemma trim_split: "s = takeWhile is_space s @ trim s @ rev (takeWhile is_space (rev (dropWhile is_space s)))"
proof -
  let ?d = "dropWhile is_space s"
  have "rev ?d = takeWhile is_space (rev ?d) @ dropWhile is_space (rev ?d)"
    by simp
  then have "?d = rev (dropWhile is_space (rev ?d)) @ rev (takeWhile is_space (rev ?d))"
    by (metis rev_append rev_rev_ident)
  then have "?d = trim s @ rev (takeWhile is_space (rev ?d))"
    by (simp add: trim_def)
  moreover have "s = takeWhile is_space s @ ?d"
    by simp
  ultimately show ?thesis by metis
qed

lemma trim_last: "trim s \<noteq> [] \<Longrightarrow> \<not> is_space (last (trim s))"
  unfolding trim_def
  by (metis (full_types) hd_dropWhile last_rev rev_is_Nil_conv)

lemma trim_hd: "trim s \<noteq> [] \<Longrightarrow> \<not> is_space (hd (trim s))"
proof -
  assume ne: "trim s \<noteq> []"
  let ?d = "dropWhile is_space s"
  have d: "?d = trim s @ rev (takeWhile is_space (rev ?d))"
    using trim_split [of s] by (metis append_same_eq takeWhile_dropWhile_id append.assoc same_append_eq)
  then have "?d \<noteq> []" using ne by (metis append_is_Nil_conv)
  then have "\<not> is_space (hd ?d)" by (rule hd_dropWhile)
  moreover have "hd ?d = hd (trim s)" using d ne by (metis hd_append2)
  ultimately show ?thesis by simp
qed

lemma replace_all_absent: "\<not> sublist pat s \<Longrightarrow> replace_all pat s = s"
  by (induction pat s rule: replace_all.induct) (auto simp: sublist_Cons_right)

lemma prefix_of_long: "prefix p (u @ v) \<Longrightarrow> length p \<le> length u \<Longrightarrow> prefix p u"
  by (auto simp: prefix_append)

lemma replace_all_first:
  "pat \<noteq> [] \<Longrightarrow> \<not> sublist pat (a @ butlast pat) \<Longrightarrow>
   replace_all pat (a @ pat @ b) = a @ replace_all pat b"
proof (induction a)
  case Nil
  then show ?case by (cases pat) simp_all
next
  case (Cons x a)
  have split: "(x # a) @ pat @ b = ((x # a) @ butlast pat) @ ([last pat] @ b)"
    using Cons.prems(1) by simp
  have "\<not> prefix pat ((x # a) @ pat @ b)"
  proof
    assume "prefix pat ((x # a) @ pat @ b)"
    then have "prefix pat (((x # a) @ butlast pat) @ ([last pat] @ b))"
      by (simp only: split)
    moreover have "length pat \<le> length ((x # a) @ butlast pat)"
      by simp
    ultimately have "prefix pat ((x # a) @ butlast pat)"
      by (rule prefix_of_long)
    then have "sublist pat ((x # a) @ butlast pat)"
      by (rule prefix_imp_sublist)
    with Cons.prems(2) show False by simp
  qed
  moreover have "\<not> sublist pat (a @ butlast pat)"
    using Cons.prems(2) by (simp add: sublist_Cons_right)
  ultimately show ?case
    using Cons.IH Cons.prems(1) by simp
qed

lemma content_absent:
  "content_of None = Undefined"
  "content_of (Some \<lparr>choices = None\<rparr>) = Undefined"
  "content_of (Some \<lparr>choices = Some []\<rparr>) = Undefined"
  "content_of (Some \<lparr>choices = Some (None # cs)\<rparr>) = Undefined"
  "content_of (Some \<lparr>choices = Some (Some \<lparr>message = None\<rparr> # cs)\<rparr>) = Undefined"
  "content_of (Some \<lparr>choices = Some (Some \<lparr>message = Some \<lparr>content = c\<rparr>\<rparr> # cs)\<rparr>) = c"
  by (simp_all add: content_of_def)

lemma sentinel_nonempty: "sentinel \<noteq> []"
  by (simp add: sentinel_def ascii_def)

text \<open>
  Claim C8. For a response that is ok, the call returns the normalized content and
  nothing else is done to it. The content is the field \<^verbatim>\<open>content\<close> of the message of the
  first choice; when the body, the list of choices, its first element, the message or the
  field is absent (or the field is null or empty) the result is the empty string, not an
  error. Otherwise every occurrence of the marker \<^verbatim>\<open><|endofcontent|>\<close> is removed in one
  scan from the left (a content without the marker is unchanged; the leftmost occurrence
  is dropped and the scan goes on behind it), and then the white space at both ends is
  removed. The content \<^verbatim>\<open>"\<close>\<open>nihao\<close>\<^verbatim>\<open><|endofcontent|>  "\<close> normalizes to \<open>nihao\<close>.
\<close>

theorem C8_response_normalization:
  "(fst (cache_lookup cfg text fromL toL w) = Online db \<and>
      fetch w (request_of U text fromL toL cfg w) = Some res \<and> ok res \<longrightarrow>
      fst (translate U text fromL toL cfg w) = Inr (normalize_response (data res))) \<and>
   (content_of result = Str s \<longrightarrow>
      normalize_response result = trim (replace_all (ascii ''<|endofcontent|>'') s)) \<and>
   (content_of result = Undefined \<or> content_of result = Null \<longrightarrow> normalize_response result = []) \<and>
   content_of None = Undefined \<and>
   content_of (Some \<lparr>choices = None\<rparr>) = Undefined \<and>
   content_of (Some \<lparr>choices = Some []\<rparr>) = Undefined \<and>
   content_of (Some \<lparr>choices = Some (None # cs)\<rparr>) = Undefined \<and>
   content_of (Some \<lparr>choices = Some (Some \<lparr>message = None\<rparr> # cs)\<rparr>) = Undefined \<and>
   content_of (Some \<lparr>choices = Some (Some \<lparr>message = Some \<lparr>content = c\<rparr>\<rparr> # cs)\<rparr>) = c \<and>
   (\<not> sublist (ascii ''<|endofcontent|>'') s \<longrightarrow> replace_all (ascii ''<|endofcontent|>'') s = s) \<and>
   (\<not> sublist (ascii ''<|endofcontent|>'') (a @ ascii ''<|endofcontent|'') \<longrightarrow>
      replace_all (ascii ''<|endofcontent|>'') (a @ ascii ''<|endofcontent|>'' @ b) =
        a @ replace_all (ascii ''<|endofcontent|>'') b) \<and>
   (trim s = [] \<or> (\<not> is_space (hd (trim s)) \<and> \<not> is_space (last (trim s)))) \<and>
   (\<exists>l r. s = l @ trim s @ r \<and> list_all is_space l \<and> list_all is_space r) \<and>
   normalize_response (data (reply (Str (nihao @ ascii ''<|endofcontent|>  '')))) = nihao \<and>
   normalize_response
     (data (reply (Str (ascii ''<|endofcontent|> a<|endofcontent|>b <|endofcontent|>'')))) =
     ascii ''ab''"
proof -
  have m: "ascii ''<|endofcontent|>'' = sentinel"
    by (simp add: sentinel_def)
  have bl: "ascii ''<|endofcontent|'' = butlast sentinel"
    by (simp add: sentinel_def ascii_def)
  have 1: "fst (translate U text fromL toL cfg w) = Inr (normalize_response (data res))"
    if "fst (cache_lookup cfg text fromL toL w) = Online db"
      "fetch w (request_of U text fromL toL cfg w) = Some res" "ok res"
    using translate_online_result [OF that(1), of U] that(2,3) by (simp add: outcome_def)
  have 2: "normalize_response result = trim (replace_all sentinel s)" if "content_of result = Str s"
    using that by (cases "s = []") (simp_all add: normalize_response_def trim_def)
  have 3: "normalize_response result = []"
    if "content_of result = Undefined \<or> content_of result = Null"
    using that by (auto simp: normalize_response_def trim_def)
  have 4: "trim s = [] \<or> (\<not> is_space (hd (trim s)) \<and> \<not> is_space (last (trim s)))"
    using trim_hd trim_last by blast
  have 5: "\<exists>l r. s = l @ trim s @ r \<and> list_all is_space l \<and> list_all is_space r"
  proof (intro exI conjI)
    show "s = takeWhile is_space s @ trim s @
        rev (takeWhile is_space (rev (dropWhile is_space s)))"
      by (rule trim_split)
    show "list_all is_space (takeWhile is_space s)"
      by (simp add: list_all_iff) (meson set_takeWhileD)
    show "list_all is_space (rev (takeWhile is_space (rev (dropWhile is_space s))))"
      by (simp add: list_all_iff) (meson set_takeWhileD)
  qed
  have 6: "normalize_response (data (reply (Str (nihao @ ascii ''<|endofcontent|>  '')))) = nihao"
    by (simp add: normalize_response_defs reply_def nihao_def)
  have 7: "normalize_response
     (data (reply (Str (ascii ''<|endofcontent|> a<|endofcontent|>b <|endofcontent|>'')))) =
     ascii ''ab''"
    by (simp add: normalize_response_defs reply_def)
  show ?thesis
    unfolding m bl
    using 1 2 3 4 5 6 7 content_absent replace_all_absent
      replace_all_first [OF sentinel_nonempty]
    by (intro conjI impI) blast+
qed

theorem C8_witness:
  "fst (translate U0 hello en zh cfg0 (world0 (Str (nihao @ ascii ''<|endofcontent|>  '')))) =
     Inr nihao \<and>
   replace_all (ascii ''<|endofcontent|>'') (nihao @ ascii ''<|endofcontent|>'' @ ascii ''  '') =
     nihao @ ascii ''  '' \<and>
   normalize_response None = [] \<and>
   trim (nihao @ ascii ''  '') = nihao"
proof -
  let ?c = "Str (nihao @ ascii ''<|endofcontent|>  '')"
  let ?w = "world0 ?c"
  note T = C8_response_normalization [where cfg = cfg0 and fromL = en
      and toL = zh and w = ?w and db = "Some db0" and U = U0 and res = "reply ?c"
      and result = None and a = nihao and b = "ascii ''  ''"]
  have h1: "fst (cache_lookup cfg0 hello en zh ?w) = Online (Some db0)"
    by (simp add: cache_defs example_defs split_beta Let_def)
  have h2: "fetch ?w (request_of U0 hello en zh cfg0 ?w) = Some (reply ?c)" "ok (reply ?c)"
    by (simp_all add: world0_def reply_def)
  have h3: "content_of None = Undefined \<or> content_of None = Null"
    by (simp add: content_of_def)
  have h4: "\<not> sublist (ascii ''<|endofcontent|>'') (nihao @ ascii ''<|endofcontent|'')"
    by (simp add: ascii_def nihao_def sublist_Cons_right)
  have h5: "\<not> sublist (ascii ''<|endofcontent|>'') (ascii ''  '')"
    by (simp add: ascii_def sublist_Cons_right)
  have a: "fst (translate U0 hello en zh cfg0 ?w) = Inr (normalize_response (data (reply ?c)))"
    using T h1 h2 by blast
  have b: "normalize_response (data (reply ?c)) = nihao"
    using T by blast
  have c: "replace_all (ascii ''<|endofcontent|>'') (nihao @ ascii ''<|endofcontent|>'' @ ascii ''  '') =
      nihao @ replace_all (ascii ''<|endofcontent|>'') (ascii ''  '')"
    using T h4 by blast
  have d: "replace_all (ascii ''<|endofcontent|>'') (ascii ''  '') = ascii ''  ''"
    using C8_response_normalization [where s = "ascii ''  ''"] h5 by blast
  have e: "normalize_response None = []"
    using T h3 by blast
  have f: "trim (nihao @ ascii ''  '') = nihao"
    by (simp add: trim_def nihao_def ascii_def is_space_def)
  show ?thesis
    using a b c d e f by simp
qed

lemma compile_escape: "compile (escapeRegExp s @ r) = map_option (\<lambda>t. map Lit s @ t) (compile r)"
  by (induction s)
    (auto simp: escapeRegExp_def is_special_def option.map_comp comp_def option.map_ident)

lemma compile_regexPattern:
  "compile (regexPattern s) = Some (WordBoundary # map Lit s @ [WordBoundary])"
  by (simp add: regexPattern_def compile_escape)

lemma isMatch_regex:
  "isMatch U term text =
     regex_test U (case_sensitive term \<noteq> Some 1)
       (WordBoundary # map Lit (source term) @ [WordBoundary]) text"
  by (simp add: isMatch_def compile_regexPattern)

lemma match_loop_acc:
  "match_loop U text rows acc =
     acc @ map (\<lambda>r. (source r, target r)) (filter (\<lambda>r. isMatch U r text) rows)"
  by (induction rows arbitrary: acc) simp_all

lemma match_here_lits:
  "match_here U ic (map Lit s @ ps) prev rest =
     (case spelled U ic s rest of
        None \<Rightarrow> False
      | Some post \<Rightarrow> match_here U ic ps (last_unit prev (take (length s) rest)) post)"
proof (induction s arbitrary: prev rest)
  case Nil
  show ?case by (simp add: last_unit_def)
next
  case (Cons c s)
  show ?case
  proof (cases rest)
    case Nil
    then show ?thesis by simp
  next
    case rest: (Cons x xs)
    show ?thesis
    proof (cases "canonicalize U ic x = canonicalize U ic c")
      case False
      then show ?thesis using rest by simp
    next
      case True
      have lu: "last_unit prev (take (length (c # s)) rest) = last_unit (Some x) (take (length s) xs)"
        by (simp add: last_unit_def rest)
      show ?thesis
        unfolding lu using True Cons.IH [of "Some x" xs] by (simp add: rest)
    qed
  qed
qed

lemma spelled_Some:
  "spelled U ic s rest = Some post \<Longrightarrow>
   rest = take (length s) rest @ post \<and> same_spelling U ic (take (length s) rest) s \<and>
   length (take (length s) rest) = length s"
proof (induction U ic s rest rule: spelled.induct)
  case (1 U ic rest)
  then show ?case by (simp add: same_spelling_def)
next
  case (2 U ic c cs)
  then show ?case by simp
next
  case (3 U ic c cs x xs)
  then show ?case by (auto simp: same_spelling_def split: if_splits)
qed

lemma spelled_occurrence:
  "same_spelling U ic occ s \<Longrightarrow> spelled U ic s (occ @ post) = Some post"
proof (induction s arbitrary: occ)
  case Nil
  then show ?case by (simp add: same_spelling_def)
next
  case (Cons c s)
  then obtain x xs where occ: "occ = x # xs"
    by (cases occ) (auto simp: same_spelling_def)
  with Cons.prems have "canonicalize U ic x = canonicalize U ic c" "same_spelling U ic xs s"
    by (simp_all add: same_spelling_def)
  then show ?case using Cons.IH [of xs] by (simp add: occ)
qed

lemma same_spelling_length: "same_spelling U ic occ s \<Longrightarrow> length occ = length s"
  unfolding same_spelling_def by (metis length_map)

lemma canonical_word:
  assumes "canonicalize U ic x = canonicalize U ic c" "is_word c"
  shows "is_word x"
proof (cases ic)
  case False
  with assms show ?thesis by (simp add: canonicalize_def)
next
  case True
  have c: "c < 128" "canonicalize U ic c < 128" "is_word (canonicalize U ic c)"
    using assms(2) True by (auto simp: is_word_def canonicalize_def)
  show ?thesis
  proof (cases "x < 128")
    case True
    then show ?thesis
      using assms(1) c(3) \<open>ic\<close> by (auto simp: canonicalize_def is_word_def split: if_splits)
  next
    case False
    then have "128 \<le> canonicalize U ic x"
      using \<open>ic\<close> by (auto simp: canonicalize_def split: list.splits)
    with c(2) assms(1) show ?thesis by simp
  qed
qed

lemma same_spelling_edges:
  assumes "same_spelling U ic occ s" "s \<noteq> []"
  shows "occ \<noteq> [] \<and> canonicalize U ic (hd occ) = canonicalize U ic (hd s) \<and>
    canonicalize U ic (last occ) = canonicalize U ic (last s)"
proof -
  have ne: "occ \<noteq> []"
    using assms same_spelling_length by fastforce
  have "hd (map (canonicalize U ic) occ) = hd (map (canonicalize U ic) s)"
    "last (map (canonicalize U ic) occ) = last (map (canonicalize U ic) s)"
    using assms(1) by (simp_all add: same_spelling_def)
  then show ?thesis
    using ne assms(2) by (simp add: hd_map last_map)
qed

text \<open>The pattern of a spelling with word characters at both ends.\<close>

lemma match_here_word_edged:
  assumes "s \<noteq> []" "is_word (hd s)" "is_word (last s)"
  shows "match_here U ic (WordBoundary # map Lit s @ [WordBoundary]) prev rest =
    bounded_here U ic s prev rest"
proof (cases "spelled U ic s rest")
  case None
  then show ?thesis by (simp add: match_here_lits bounded_here_def)
next
  case (Some post)
  let ?occ = "take (length s) rest"
  have r: "rest = ?occ @ post" and sp: "same_spelling U ic ?occ s"
    using spelled_Some [OF Some] by simp_all
  have e: "?occ \<noteq> []" "canonicalize U ic (hd ?occ) = canonicalize U ic (hd s)"
    "canonicalize U ic (last ?occ) = canonicalize U ic (last s)"
    using same_spelling_edges [OF sp assms(1)] by blast+
  have w1: "is_word (hd ?occ)" using canonical_word [OF e(2) assms(2)] .
  have w2: "is_word (last ?occ)" using canonical_word [OF e(3) assms(3)] .
  have "hd rest = hd ?occ" "rest \<noteq> []"
    using r e(1) by (metis hd_append2, metis append_is_Nil_conv)
  then have a: "word_after rest"
    using w1 by (cases rest) (simp_all add: word_after_def)
  have b: "word_before (last_unit prev ?occ)"
    using w2 e(1) by (simp add: last_unit_def word_before_def)
  show ?thesis
    using a b by (simp add: match_here_lits bounded_here_def Some at_boundary_def)
qed

lemma search_word_edged:
  assumes "s \<noteq> []" "is_word (hd s)" "is_word (last s)"
  shows "search U ic (WordBoundary # map Lit s @ [WordBoundary]) prev text =
    whole_word_from U ic s prev text"
proof (induction "text" arbitrary: prev)
  case Nil
  show ?case
    using match_here_word_edged [OF assms] by simp
next
  case (Cons x xs)
  show ?case
    using match_here_word_edged [OF assms] Cons.IH by simp
qed

lemma search_positions:
  "search U ic ps prev text =
     (\<exists>pre rest. text = pre @ rest \<and> match_here U ic ps (last_unit prev pre) rest)"
proof (induction "text" arbitrary: prev)
  case Nil
  show ?case by (simp add: last_unit_def)
next
  case (Cons x xs)
  have "(\<exists>pre rest. x # xs = pre @ rest \<and> match_here U ic ps (last_unit prev pre) rest) =
      (match_here U ic ps prev (x # xs) \<or>
       (\<exists>pre rest. xs = pre @ rest \<and> match_here U ic ps (last_unit (Some x) pre) rest))"
  proof -
    have lu: "last_unit prev (x # pre) = last_unit (Some x) pre" for pre
      by (simp add: last_unit_def)
    show ?thesis
      apply (rule iffI)
       apply (elim exE conjE)
      subgoal for pre rest
        apply (cases pre)
         apply (simp add: last_unit_def)
        apply (simp add: lu)
        apply blast
        done
      apply (elim disjE exE conjE)
       apply (rule exI [of _ "[]"])
       apply (simp add: last_unit_def)
      subgoal for pre rest
        apply (rule exI [of _ "x # pre"])
        apply (simp add: lu)
        done
      done
  qed
  then show ?case
    using Cons.IH by simp
qed

lemma last_unit_append: "last_unit (last_unit prev pre) occ = last_unit prev (pre @ occ)"
  by (simp add: last_unit_def)

lemma match_here_pattern:
  "match_here U ic (WordBoundary # map Lit s @ [WordBoundary]) prev rest =
     (\<exists>occ post. rest = occ @ post \<and> same_spelling U ic occ s \<and>
        at_boundary prev (occ @ post) \<and> at_boundary (last_unit prev occ) post)"
proof (cases "spelled U ic s rest")
  case None
  have "\<not> (rest = occ @ post \<and> same_spelling U ic occ s)" for occ post
    using spelled_occurrence [of U ic occ s post] None by auto
  then have "\<not> (\<exists>occ post. rest = occ @ post \<and> same_spelling U ic occ s \<and>
        at_boundary prev (occ @ post) \<and> at_boundary (last_unit prev occ) post)"
    by blast
  then show ?thesis
    by (simp only: match_here.simps match_here_lits None option.case simp_thms)
next
  case (Some post)
  let ?occ = "take (length s) rest"
  have r: "rest = ?occ @ post" and sp: "same_spelling U ic ?occ s"
    using spelled_Some [OF Some] by simp_all
  have uniq: "occ = ?occ \<and> post' = post"
    if "rest = occ @ post'" "same_spelling U ic occ s" for occ post'
  proof -
    have "spelled U ic s rest = Some post'"
      using spelled_occurrence [OF that(2), of post'] that(1) by simp
    then have "post' = post" using Some by simp
    moreover have "occ = ?occ"
      using that(1) same_spelling_length [OF that(2)] by simp
    ultimately show ?thesis by simp
  qed
  have "match_here U ic (WordBoundary # map Lit s @ [WordBoundary]) prev rest =
      (at_boundary prev rest \<and> at_boundary (last_unit prev ?occ) post)"
    by (simp add: match_here_lits Some)
  also have "\<dots> = (\<exists>occ post'. rest = occ @ post' \<and> same_spelling U ic occ s \<and>
        at_boundary prev (occ @ post') \<and> at_boundary (last_unit prev occ) post')"
  proof
    assume "at_boundary prev rest \<and> at_boundary (last_unit prev ?occ) post"
    then show "\<exists>occ post'. rest = occ @ post' \<and> same_spelling U ic occ s \<and>
        at_boundary prev (occ @ post') \<and> at_boundary (last_unit prev occ) post'"
      using r sp by (intro exI [of _ ?occ] exI [of _ post]) (metis (no_types))
  next
    assume "\<exists>occ post'. rest = occ @ post' \<and> same_spelling U ic occ s \<and>
        at_boundary prev (occ @ post') \<and> at_boundary (last_unit prev occ) post'"
    then obtain occ post' where o: "rest = occ @ post'" "same_spelling U ic occ s"
      "at_boundary prev (occ @ post')" "at_boundary (last_unit prev occ) post'"
      by blast
    have "occ = ?occ" "post' = post" using uniq [OF o(1,2)] by simp_all
    then show "at_boundary prev rest \<and> at_boundary (last_unit prev ?occ) post"
      using o by simp
  qed
  finally show ?thesis .
qed

lemma isMatch_occurrence:
  "isMatch U term text =
     (\<exists>pre occ post. text = pre @ occ @ post \<and>
        same_spelling U (case_sensitive term \<noteq> Some 1) occ (source term) \<and>
        at_boundary (last_unit None pre) (occ @ post) \<and>
        at_boundary (last_unit None (pre @ occ)) post)"
  unfolding isMatch_regex regex_test_def search_positions match_here_pattern last_unit_append
  by blast

lemma isMatch_word_edged:
  "source term \<noteq> [] \<Longrightarrow> is_word (hd (source term)) \<Longrightarrow> is_word (last (source term)) \<Longrightarrow>
   isMatch U term text = whole_word U (case_sensitive term \<noteq> Some 1) (source term) text"
  by (simp add: isMatch_regex regex_test_def whole_word_def search_word_edged)

lemma bounded_here_occurrence:
  "bounded_here U ic s prev rest =
     (\<exists>occ post. rest = occ @ post \<and> same_spelling U ic occ s \<and>
        \<not> word_before prev \<and> \<not> word_after post)"
proof (cases "spelled U ic s rest")
  case None
  have "\<not> (rest = occ @ post \<and> same_spelling U ic occ s)" for occ post
    using spelled_occurrence [of U ic occ s post] None by auto
  then have "\<not> (\<exists>occ post. rest = occ @ post \<and> same_spelling U ic occ s \<and>
        \<not> word_before prev \<and> \<not> word_after post)"
    by blast
  then show ?thesis
    by (simp only: bounded_here_def None option.case simp_thms)
next
  case (Some post)
  have r: "rest = take (length s) rest @ post"
    and sp: "same_spelling U ic (take (length s) rest) s"
    using spelled_Some [OF Some] by simp_all
  have uniq: "post' = post" if "rest = occ @ post'" "same_spelling U ic occ s" for occ post'
    using spelled_occurrence [OF that(2), of post'] that(1) Some by simp
  show ?thesis
  proof
    assume "bounded_here U ic s prev rest"
    then have "\<not> word_before prev" "\<not> word_after post"
      by (simp_all add: bounded_here_def Some)
    then show "\<exists>occ post. rest = occ @ post \<and> same_spelling U ic occ s \<and>
        \<not> word_before prev \<and> \<not> word_after post"
      using r sp by blast
  next
    assume "\<exists>occ post. rest = occ @ post \<and> same_spelling U ic occ s \<and>
        \<not> word_before prev \<and> \<not> word_after post"
    then show "bounded_here U ic s prev rest"
      using uniq by (auto simp: bounded_here_def Some)
  qed
qed

lemma whole_word_positions:
  "whole_word_from U ic s prev text =
     (\<exists>pre rest. text = pre @ rest \<and> bounded_here U ic s (last_unit prev pre) rest)"
proof (induction "text" arbitrary: prev)
  case Nil
  show ?case by (simp add: last_unit_def)
next
  case (Cons x xs)
  have lu: "last_unit prev (x # pre) = last_unit (Some x) pre" for pre
    by (simp add: last_unit_def)
  have "(\<exists>pre rest. x # xs = pre @ rest \<and> bounded_here U ic s (last_unit prev pre) rest) =
      (bounded_here U ic s prev (x # xs) \<or>
       (\<exists>pre rest. xs = pre @ rest \<and> bounded_here U ic s (last_unit (Some x) pre) rest))"
    apply (rule iffI)
     apply (elim exE conjE)
    subgoal for pre rest
      apply (cases pre)
       apply (simp add: last_unit_def)
      apply (simp add: lu)
      apply blast
      done
    apply (elim disjE exE conjE)
     apply (rule exI [of _ "[]"])
     apply (simp add: last_unit_def)
    subgoal for pre rest
      apply (rule exI [of _ "x # pre"])
      apply (simp add: lu)
      done
    done
  then show ?case
    using Cons.IH by simp
qed

lemma whole_word_occurrence:
  "whole_word U ic s text =
     (\<exists>pre occ post. text = pre @ occ @ post \<and> same_spelling U ic occ s \<and>
        \<not> word_before (last_unit None pre) \<and> \<not> word_after post)"
  unfolding whole_word_def whole_word_positions bounded_here_occurrence
  by blast

lemmas match_defs = isMatch_def regexPattern_def escapeRegExp_def is_special_def regex_test_def
  at_boundary_def word_before_def word_after_def is_word_def canonicalize_def ascii_def

text \<open>
  Claim C5, as stated, fails: a stored term that occurs in the text, even as a whole word
  between two spaces, is not returned when its spelling ends with a character that is not
  a word character.
\<close>

theorem C5_counterexample:
  "whole_word U0 True (source cpp_term) (ascii ''I use C++ daily'') \<and>
   sublist (source cpp_term) (ascii ''I use C++ daily'') \<and>
   match_loop U0 (ascii ''I use C++ daily'') [cpp_term] [] = []"
proof -
  have "ascii ''I use C++ daily'' = ascii ''I use '' @ source cpp_term @ ascii '' daily''"
    by (simp add: cpp_term_def ascii_def)
  then have "sublist (source cpp_term) (ascii ''I use C++ daily'')"
    unfolding sublist_def by blast
  then show ?thesis
    by (simp add: match_defs cpp_term_def U0_def whole_word_def bounded_here_def)
qed

text \<open>
  Claim C5, amended. The matcher returns, in store order, the (source, target) pairs of
  the stored terms that have an occurrence of their spelling in the text (up to case
  unless the term is case sensitive) with a word boundary at both of its ends, and only
  those; the flag is not part of a pair. When every stored spelling begins and ends with
  a word character, these are the terms that occur in the text as a whole word. A term
  GPU that is not case sensitive is returned for "I bought a gpu" and not for "agpu123",
  "gpu123" or "agpu"; a case sensitive term API is not returned for "this is an api" and
  is returned for "this is an API".
\<close>

theorem C5_matcher_returns_matching_terms_in_order:
  "match_loop U text rows [] =
     map (\<lambda>r. (source r, target r))
       (filter (\<lambda>r. \<exists>pre occ post. text = pre @ occ @ post \<and>
           same_spelling U (case_sensitive r \<noteq> Some 1) occ (source r) \<and>
           at_boundary (last_unit None pre) (occ @ post) \<and>
           at_boundary (last_unit None (pre @ occ)) post) rows) \<and>
   ((\<forall>r \<in> set rows. source r \<noteq> [] \<and> is_word (hd (source r)) \<and> is_word (last (source r))) \<longrightarrow>
      match_loop U text rows [] =
        map (\<lambda>r. (source r, target r))
          (filter (\<lambda>r. whole_word U (case_sensitive r \<noteq> Some 1) (source r) text) rows)) \<and>
   (\<not> exec_fails w db SelectTerms \<longrightarrow>
      fst (match_terms U (Some db) text w) = match_loop U text (terms_tbl (stores w db)) []) \<and>
   (source t = ascii ''GPU'' \<and> case_sensitive t \<noteq> Some 1 \<longrightarrow>
      match_loop U (ascii ''I bought a gpu'') [t] [] = [(source t, target t)] \<and>
      match_loop U (ascii ''agpu123'') [t] [] = [] \<and>
      match_loop U (ascii ''gpu123'') [t] [] = [] \<and>
      match_loop U (ascii ''agpu'') [t] [] = []) \<and>
   (source t = ascii ''API'' \<and> case_sensitive t = Some 1 \<longrightarrow>
      match_loop U (ascii ''this is an api'') [t] [] = [] \<and>
      match_loop U (ascii ''this is an API'') [t] [] = [(source t, target t)])"
proof -
  have 1: "match_loop U text rows [] =
     map (\<lambda>r. (source r, target r))
       (filter (\<lambda>r. \<exists>pre occ post. text = pre @ occ @ post \<and>
           same_spelling U (case_sensitive r \<noteq> Some 1) occ (source r) \<and>
           at_boundary (last_unit None pre) (occ @ post) \<and>
           at_boundary (last_unit None (pre @ occ)) post) rows)"
    by (simp add: match_loop_acc isMatch_occurrence)
  have 2: "match_loop U text rows [] =
        map (\<lambda>r. (source r, target r))
          (filter (\<lambda>r. whole_word U (case_sensitive r \<noteq> Some 1) (source r) text) rows)"
    if "\<forall>r \<in> set rows. source r \<noteq> [] \<and> is_word (hd (source r)) \<and> is_word (last (source r))"
  proof -
    have "filter (\<lambda>r. isMatch U r text) rows =
        filter (\<lambda>r. whole_word U (case_sensitive r \<noteq> Some 1) (source r) text) rows"
      using that by (intro filter_cong refl) (simp add: isMatch_word_edged)
    then show ?thesis
      by (simp add: match_loop_acc)
  qed
  have 3: "fst (match_terms U (Some db) text w) = match_loop U text (terms_tbl (stores w db)) []"
    if "\<not> exec_fails w db SelectTerms"
    using that by (simp add: match_terms_def select_terms_def Let_def)
  have 4: "match_loop U (ascii ''I bought a gpu'') [t] [] = [(source t, target t)] \<and>
      match_loop U (ascii ''agpu123'') [t] [] = [] \<and>
      match_loop U (ascii ''gpu123'') [t] [] = [] \<and>
      match_loop U (ascii ''agpu'') [t] [] = []"
    if "source t = ascii ''GPU''" "case_sensitive t \<noteq> Some 1"
    using that by (simp add: match_defs)
  have 5: "match_loop U (ascii ''this is an api'') [t] [] = [] \<and>
      match_loop U (ascii ''this is an API'') [t] [] = [(source t, target t)]"
    if "source t = ascii ''API''" "case_sensitive t = Some 1"
    using that by (simp add: match_defs)
  show ?thesis
    using 1 2 3 4 5 by (intro conjI impI) blast+
qed

lemmas term_defs = gpu_term_def api_term_def cjk_term_def chuliqi_def U0_def

theorem C5_witness:
  "match_loop U0 (ascii ''my gpu calls the API'') [api_term, cjk_term, gpu_term] [] =
     [(ascii ''API'', [25509, 21475]), (ascii ''GPU'', [26174, 21345])] \<and>
   match_loop U0 (ascii ''my gpu calls the API'') [api_term, gpu_term] [] =
     [(ascii ''API'', [25509, 21475]), (ascii ''GPU'', [26174, 21345])] \<and>
   whole_word U0 False (ascii ''API'') (ascii ''my gpu calls the API'') \<and>
   whole_word U0 True (ascii ''GPU'') (ascii ''my gpu calls the API'') \<and>
   match_loop U0 (ascii ''I bought a gpu'') [gpu_term] [] = [(ascii ''GPU'', [26174, 21345])] \<and>
   match_loop U0 (ascii ''agpu123'') [gpu_term] [] = [] \<and>
   match_loop U0 (ascii ''gpu123'') [gpu_term] [] = [] \<and>
   match_loop U0 (ascii ''this is an api'') [api_term] [] = [] \<and>
   match_loop U0 (ascii ''this is an API'') [api_term] [] = [(ascii ''API'', [25509, 21475])]"
proof -
  let ?text = "ascii ''my gpu calls the API''"
  have g: "source gpu_term = ascii ''GPU'' \<and> case_sensitive gpu_term \<noteq> Some 1"
    by (simp add: gpu_term_def)
  have a: "source api_term = ascii ''API'' \<and> case_sensitive api_term = Some 1"
    by (simp add: api_term_def)
  have f: "source gpu_term = ascii ''GPU''" "target gpu_term = [26174, 21345]"
    "source api_term = ascii ''API''" "target api_term = [25509, 21475]"
    "(case_sensitive gpu_term \<noteq> Some 1) = True" "(case_sensitive api_term \<noteq> Some 1) = False"
    by (simp_all add: gpu_term_def api_term_def)
  have e: "\<forall>r \<in> set [api_term, gpu_term].
      source r \<noteq> [] \<and> is_word (hd (source r)) \<and> is_word (last (source r))"
    by (simp add: gpu_term_def api_term_def ascii_def is_word_def)
  have ww: "whole_word U0 False (ascii ''API'') ?text" "whole_word U0 True (ascii ''GPU'') ?text"
    by (simp_all add: whole_word_def bounded_here_def match_defs U0_def)
  have m: "(\<exists>pre occ post. ?text = pre @ occ @ post \<and>
        same_spelling U0 (case_sensitive r \<noteq> Some 1) occ (source r) \<and>
        at_boundary (last_unit None pre) (occ @ post) \<and>
        at_boundary (last_unit None (pre @ occ)) post) = isMatch U0 r ?text" for r
    by (simp only: isMatch_occurrence)
  have i: "isMatch U0 api_term ?text" "\<not> isMatch U0 cjk_term ?text" "isMatch U0 gpu_term ?text"
    by (simp_all add: match_defs term_defs)
  have 1: "match_loop U0 ?text [api_term, cjk_term, gpu_term] [] =
      [(ascii ''API'', [25509, 21475]), (ascii ''GPU'', [26174, 21345])]"
    using C5_matcher_returns_matching_terms_in_order [of U0 ?text "[api_term, cjk_term, gpu_term]", THEN conjunct1]
    by (simp add: m i f)
  have 2: "match_loop U0 ?text [api_term, gpu_term] [] =
      [(ascii ''API'', [25509, 21475]), (ascii ''GPU'', [26174, 21345])]"
    using C5_matcher_returns_matching_terms_in_order [of U0 ?text "[api_term, gpu_term]", THEN conjunct2, THEN conjunct1, rule_format]
      e
    by (simp add: ww f)
  have 3: "match_loop U0 (ascii ''I bought a gpu'') [gpu_term] [] = [(ascii ''GPU'', [26174, 21345])] \<and>
      match_loop U0 (ascii ''agpu123'') [gpu_term] [] = [] \<and>
      match_loop U0 (ascii ''gpu123'') [gpu_term] [] = []"
    using C5_matcher_returns_matching_terms_in_order [where U = U0 and t = gpu_term, THEN conjunct2, THEN conjunct2, THEN conjunct2,
        THEN conjunct1] g
    by (simp add: f)
  have 4: "match_loop U0 (ascii ''this is an api'') [api_term] [] = [] \<and>
      match_loop U0 (ascii ''this is an API'') [api_term] [] = [(ascii ''API'', [25509, 21475])]"
    using C5_matcher_returns_matching_terms_in_order [where U = U0 and t = api_term, THEN conjunct2, THEN conjunct2, THEN conjunct2,
        THEN conjunct2] a
    by (simp add: f)
  show ?thesis
    using 1 2 3 4 ww by simp
qed

text \<open>
  Claim C9, as stated, fails: a purely CJK spelling that stands in the text between two
  spaces, or between two other CJK characters, is an occurrence bounded by non-word
  characters on both sides, and the matcher does not match it.
\<close>

theorem C9_counterexample:
  "whole_word U0 True chuliqi ([32] @ chuliqi @ [32]) \<and>
   \<not> isMatch U0 cjk_term ([32] @ chuliqi @ [32]) \<and>
   whole_word U0 True chuliqi ([20013] @ chuliqi @ [25991]) \<and>
   \<not> isMatch U0 cjk_term ([20013] @ chuliqi @ [25991])"
  by (simp add: match_defs term_defs whole_word_def bounded_here_def)

lemma same_spelling_non_word:
  assumes "same_spelling U ic occ s" "s \<noteq> []"
  shows "is_word (hd occ) = is_word (hd s) \<and> is_word (last occ) = is_word (last s) \<and> occ \<noteq> []"
  using same_spelling_edges [OF assms] canonical_word [of U ic "hd occ" "hd s"]
    canonical_word [of U ic "hd s" "hd occ"] canonical_word [of U ic "last occ" "last s"]
    canonical_word [of U ic "last s" "last occ"]
  by metis

lemma isMatch_non_word_edged:
  assumes "source t \<noteq> []" "\<not> is_word (hd (source t))" "\<not> is_word (last (source t))"
  shows "isMatch U t text =
     (\<exists>pre occ post. text = pre @ occ @ post \<and>
        same_spelling U (case_sensitive t \<noteq> Some 1) occ (source t) \<and>
        word_before (last_unit None pre) \<and> word_after post)"
proof -
  have "(at_boundary (last_unit None pre) (occ @ post) \<and> at_boundary (last_unit None (pre @ occ)) post) =
      (word_before (last_unit None pre) \<and> word_after post)"
    if sp: "same_spelling U (case_sensitive t \<noteq> Some 1) occ (source t)" for pre occ post
  proof -
    have e: "\<not> is_word (hd occ)" "\<not> is_word (last occ)" "occ \<noteq> []"
      using same_spelling_non_word [OF sp assms(1)] assms(2,3) by simp_all
    have a: "\<not> word_after (occ @ post)"
      using e(1,3) by (cases occ) (simp_all add: word_after_def)
    have b: "\<not> word_before (last_unit None (pre @ occ))"
      using e(2,3) by (simp add: last_unit_def word_before_def)
    show ?thesis
      using a b by (simp add: at_boundary_def)
  qed
  then show ?thesis
    unfolding isMatch_occurrence by blast
qed

text \<open>
  Claim C9, amended. The term matches exactly when an occurrence of its spelling (compared
  by canonical units: up to case unless the term is case sensitive) has a word boundary at
  each of its two ends, that is, exactly one of the two characters next to that end is a
  word character, a string edge counting as a non-word character. For a spelling that
  begins and ends with a word character this is the criterion of the glossary: an
  occurrence with no word character directly before or after it. A spelling that begins
  and ends with a non-word character (a purely CJK one) matches exactly when an occurrence
  has a word character directly before it and directly after it.
\<close>

theorem C9_match_is_occurrence_between_word_boundaries:
  "(isMatch U t text \<longleftrightarrow>
      (\<exists>pre occ post. text = pre @ occ @ post \<and>
         same_spelling U (case_sensitive t \<noteq> Some 1) occ (source t) \<and>
         at_boundary (last_unit None pre) (occ @ post) \<and>
         at_boundary (last_unit None (pre @ occ)) post)) \<and>
   (source t \<noteq> [] \<and> is_word (hd (source t)) \<and> is_word (last (source t)) \<longrightarrow>
      (isMatch U t text \<longleftrightarrow> whole_word U (case_sensitive t \<noteq> Some 1) (source t) text)) \<and>
   (source t \<noteq> [] \<and> \<not> is_word (hd (source t)) \<and> \<not> is_word (last (source t)) \<longrightarrow>
      (isMatch U t text \<longleftrightarrow>
         (\<exists>pre occ post. text = pre @ occ @ post \<and>
            same_spelling U (case_sensitive t \<noteq> Some 1) occ (source t) \<and>
            word_before (last_unit None pre) \<and> word_after post))) \<and>
   (whole_word U ic s text \<longleftrightarrow>
      (\<exists>pre occ post. text = pre @ occ @ post \<and> same_spelling U ic occ s \<and>
         \<not> word_before (last_unit None pre) \<and> \<not> word_after post))"
  using isMatch_occurrence [of U t "text"] isMatch_word_edged [of t U "text"]
    isMatch_non_word_edged [of t U "text"] whole_word_occurrence [of U ic s "text"]
  by (intro conjI impI) blast+

theorem C9_witness:
  "isMatch U0 gpu_term (ascii ''I bought a gpu'') \<and>
   whole_word U0 True (ascii ''GPU'') (ascii ''I bought a gpu'') \<and>
   isMatch U0 cjk_term ([97] @ chuliqi @ [98]) \<and>
   word_before (last_unit None [97]) \<and> word_after [98]"
proof -
  have g: "source gpu_term \<noteq> [] \<and> is_word (hd (source gpu_term)) \<and> is_word (last (source gpu_term))"
    by (simp add: gpu_term_def ascii_def is_word_def)
  have gi: "(case_sensitive gpu_term \<noteq> Some 1) = True" "source gpu_term = ascii ''GPU''"
    by (simp_all add: gpu_term_def)
  have w: "whole_word U0 True (ascii ''GPU'') (ascii ''I bought a gpu'')"
    by (simp add: whole_word_def bounded_here_def match_defs U0_def)
  have c: "source cjk_term \<noteq> [] \<and> \<not> is_word (hd (source cjk_term)) \<and>
      \<not> is_word (last (source cjk_term))"
    by (simp add: cjk_term_def chuliqi_def is_word_def)
  have o: "[97] @ chuliqi @ [98] = [97] @ chuliqi @ [98] \<and>
      same_spelling U0 (case_sensitive cjk_term \<noteq> Some 1) chuliqi (source cjk_term) \<and>
      word_before (last_unit None [97]) \<and> word_after [98]"
    by (simp add: same_spelling_def cjk_term_def last_unit_def word_before_def word_after_def
        is_word_def)
  have "source gpu_term \<noteq> [] \<and> is_word (hd (source gpu_term)) \<and> is_word (last (source gpu_term)) \<longrightarrow>
      (isMatch U0 gpu_term (ascii ''I bought a gpu'') \<longleftrightarrow>
       whole_word U0 (case_sensitive gpu_term \<noteq> Some 1) (source gpu_term) (ascii ''I bought a gpu''))"
    using C9_match_is_occurrence_between_word_boundaries
      [of U0 gpu_term "ascii ''I bought a gpu''"]
    by blast
  then have 1: "isMatch U0 gpu_term (ascii ''I bought a gpu'')"
    using g w by (simp add: gi)
  have 2: "isMatch U0 cjk_term ([97] @ chuliqi @ [98])"
    using C9_match_is_occurrence_between_word_boundaries
      [of U0 cjk_term "[97] @ chuliqi @ [98]"] c o
    by blast
  show ?thesis
    using 1 2 w o by blast
qed

lemmas parseFloat_defs = parseFloat_def read_sign_def read_exponent_def ascii_def is_space_def
  is_digit_def digits_value_def

text \<open>Rounding to a double, on the values of the examples.\<close>

lemma halvings_numeral:
  "halvings (numeral n) x = (if 2 \<le> x then Suc (halvings (pred_numeral n) (x / 2)) else 0)"
  by (simp add: numeral_eq_Suc)

lemma doublings_numeral:
  "doublings (numeral n) x = (if x < 1 then Suc (doublings (pred_numeral n) (2 * x)) else 0)"
  by (simp add: numeral_eq_Suc)

lemma doublings_zero: "doublings k 0 = k"
  by (induction k) simp_all

lemma binade_values: "binade 0 = - 1022" "binade 5 = 2" "binade (3 / 2) = 0" "binade (13 / 20) = - 1"
  by (simp_all add: binade_def doublings_zero halvings_numeral doublings_numeral)

lemma round_at_values:
  "round_at (- 1074) 0 = 0" "round_at (- 50) 5 = 5" "round_at (- 52) (3 / 2) = 3 / 2"
  "round_at (- 53) (13 / 20) = 5854679515581645 / 9007199254740992"
  by (simp_all add: round_at_def pow2_def round_half_even_def Let_def)

lemma binary64_values:
  "binary64 0 = Num 0" "binary64 5 = Num 5" "binary64 (3 / 2) = Num (3 / 2)"
  "binary64 (13 / 20) = Num (5854679515581645 / 9007199254740992)"
  by (simp_all add: binary64_def binade_values round_at_values)

lemma parseFloat_absent:
  "parseFloat Undefined = NaN" "parseFloat Null = NaN" "parseFloat (Str []) = NaN"
  by (simp_all add: parseFloat_defs)

text \<open>The variant that checks the range keeps exactly the parsed values in \<open>[0, 2)\<close>.\<close>

lemma temperature_clamped_contract:
  "temperature_clamped v = (if in_range (parseFloat v) then parseFloat v else binary64 0.65)"
  by (cases v) (auto simp: temperature_clamped_def parseFloat_absent in_range_def Let_def)

lemma temperature_clamped_examples:
  "temperature_clamped (Str []) = binary64 0.65"
  "temperature_clamped (Str (ascii ''abc'')) = binary64 0.65"
  "temperature_clamped (Str (ascii ''1.5'')) = Num 1.5"
  "temperature_clamped (Str (ascii ''5'')) = binary64 0.65"
  "temperature_clamped (Str (ascii ''0'')) = Num 0"
  by (simp_all add: temperature_clamped_def in_range_def parseFloat_defs binary64_values)

text \<open>Rounding at the ends of the range, and next to 2.\<close>

lemma halvings_full: "2 ^ k \<le> x \<Longrightarrow> halvings k x = k"
proof (induction k arbitrary: x)
  case 0
  show ?case by simp
next
  case (Suc k)
  have "(2::real) \<le> 2 ^ Suc k"
    using self_le_power [of "2::real" "Suc k"] by simp
  with Suc.prems have "2 \<le> x" by linarith
  moreover have "2 ^ k \<le> x / 2"
    using Suc.prems by simp
  ultimately show ?case
    using Suc.IH by simp
qed

lemma doublings_full: "x * 2 ^ k < 1 \<Longrightarrow> 0 \<le> x \<Longrightarrow> doublings k x = k"
proof (induction k arbitrary: x)
  case 0
  show ?case by simp
next
  case (Suc k)
  have "(1::real) \<le> 2 ^ Suc k"
    by (rule one_le_power) simp
  then have "x * 1 \<le> x * 2 ^ Suc k"
    using Suc.prems(2) by (rule mult_left_mono)
  with Suc.prems(1) have "x < 1" by simp
  moreover have "2 * x * 2 ^ k < 1"
    using Suc.prems(1) by (simp add: mult.assoc mult.left_commute)
  ultimately show ?case
    using Suc.IH [of "2 * x"] Suc.prems(2) by simp
qed

lemma round_half_even_floor: "\<lfloor>r\<rfloor> \<le> round_half_even r"
  by (simp add: round_half_even_def Let_def)

lemma round_half_even_none: "0 \<le> r \<Longrightarrow> r < 1 / 2 \<Longrightarrow> round_half_even r = 0"
proof -
  assume r: "0 \<le> r" "r < 1 / 2"
  then have "\<lfloor>r\<rfloor> = 0"
    by (intro floor_unique) simp_all
  then show ?thesis
    using r by (simp add: round_half_even_def Let_def)
qed

lemma binary64_overflow:
  assumes "2 ^ 1024 \<le> \<bar>x\<bar>"
  shows "binary64 x = Infinity (x < 0)"
proof -
  define P :: real where "P = 2 ^ 972"
  define Q :: real where "Q = 2 ^ 1024"
  have P: "0 < P" and PQ: "2 ^ 52 * P = Q"
    by (simp_all add: P_def Q_def)
  have x: "Q \<le> \<bar>x\<bar>"
    using assms by (simp add: Q_def)
  have b: "binade \<bar>x\<bar> = 1024"
  proof -
    have "(1::real) \<le> 2 ^ 1024" by simp
    with assms have "1 \<le> \<bar>x\<bar>" by linarith
    then show ?thesis
      using halvings_full [OF assms] by (simp add: binade_def)
  qed
  have p: "pow2 (1024 - 52) = P"
    by (simp add: pow2_def P_def)
  have "2 ^ 52 * P \<le> \<bar>x\<bar>"
    using x PQ by simp
  then have "2 ^ 52 \<le> \<bar>x\<bar> / P"
    using P by (simp only: pos_le_divide_eq)
  then have "real_of_int (2 ^ 52) \<le> \<bar>x\<bar> / P"
    by simp
  then have "2 ^ 52 \<le> \<lfloor>\<bar>x\<bar> / P\<rfloor>"
    by (simp only: le_floor_iff)
  then have "2 ^ 52 \<le> round_half_even (\<bar>x\<bar> / P)"
    using round_half_even_floor [of "\<bar>x\<bar> / P"] by linarith
  then have "real_of_int (2 ^ 52) \<le> real_of_int (round_half_even (\<bar>x\<bar> / P))"
    by (simp only: of_int_le_iff)
  then have "real_of_int (2 ^ 52) * P \<le> real_of_int (round_half_even (\<bar>x\<bar> / P)) * P"
    using P by (simp only: mult_le_cancel_right_pos)
  then have "Q \<le> round_at (1024 - 52) \<bar>x\<bar>"
    using PQ unfolding round_at_def p by simp
  then show ?thesis
    unfolding binary64_def b Let_def Q_def by (simp only: if_True)
qed

lemma binary64_underflow:
  assumes "\<bar>x\<bar> * 2 ^ 1075 < 1"
  shows "binary64 x = Num 0"
proof -
  define P :: real where "P = 2 ^ 1074"
  have P: "0 < P" and P2: "2 ^ 1075 = 2 * P" and P3: "2 ^ 1022 \<le> 2 * P"
    by (simp_all add: P_def)
  have h: "\<bar>x\<bar> * (2 * P) < 1"
    using assms by (simp only: P2)
  have "\<bar>x\<bar> * 2 ^ 1022 \<le> \<bar>x\<bar> * (2 * P)"
    using P3 by (intro mult_left_mono) simp_all
  with h have "\<bar>x\<bar> * 2 ^ 1022 < 1" by linarith
  then have b: "binade \<bar>x\<bar> = - 1022"
    using doublings_full [of "\<bar>x\<bar>" 1022] h P by (auto simp: binade_def)
  have p: "pow2 (- 1022 - 52) = 1 / P"
    by (simp add: pow2_def P_def)
  have "round_half_even (\<bar>x\<bar> * P) = 0"
    using h P by (intro round_half_even_none) simp_all
  then have r: "round_at (- 1022 - 52) \<bar>x\<bar> = 0"
    unfolding round_at_def p by simp
  show ?thesis
    unfolding binary64_def b Let_def r by simp
qed

lemma binary64_below_two:
  "binary64 (199999999999999999999 / 100000000000000000000) = Num 2"
proof -
  have b: "binade (199999999999999999999 / 100000000000000000000) = 0"
    by (simp add: binade_def halvings_numeral doublings_numeral)
  have r: "round_at (- 52) (199999999999999999999 / 100000000000000000000) = 2"
    by (simp add: round_at_def pow2_def round_half_even_def Let_def)
  show ?thesis
    by (simp add: binary64_def b r)
qed

lemma parseFloat_limits:
  "parseFloat (Str (ascii ''1e400'')) = Infinity False"
  "parseFloat (Str (ascii ''1e-400'')) = Num 0"
  "parseFloat (Str (ascii ''1.99999999999999999999'')) = Num 2"
proof -
  have 1: "parseFloat (Str (ascii ''1e400'')) = binary64 (10 ^ 400)"
    by (simp add: parseFloat_defs)
  have 2: "parseFloat (Str (ascii ''1e-400'')) = binary64 (1 / 10 ^ 400)"
    by (simp add: parseFloat_defs)
  have 3: "parseFloat (Str (ascii ''1.99999999999999999999'')) =
      binary64 (199999999999999999999 / 100000000000000000000)"
    by (simp add: parseFloat_defs)
  have a: "(2::real) ^ 1024 \<le> \<bar>10 ^ 400\<bar>"
    by simp
  have b: "\<bar>1 / 10 ^ 400 :: real\<bar> * 2 ^ 1075 < 1"
    by simp
  have "(0::real) \<le> 10 ^ 400"
    by (rule zero_le_power) simp
  then have n: "((10::real) ^ 400 < 0) = False"
    by (simp only: not_less [symmetric] not_not) 
  show "parseFloat (Str (ascii ''1e400'')) = Infinity False"
    unfolding 1 binary64_overflow [OF a] n by (rule refl)
  show "parseFloat (Str (ascii ''1e-400'')) = Num 0"
    unfolding 2 by (rule binary64_underflow [OF b])
  show "parseFloat (Str (ascii ''1.99999999999999999999'')) = Num 2"
    unfolding 3 by (rule binary64_below_two)
qed

lemma temperature_limits:
  "temperature_of (Str (ascii ''1e-400'')) = binary64 0.65"
  "temperature_clamped (Str (ascii ''1.99999999999999999999'')) = binary64 0.65"
  by (simp_all add: temperature_of_def falsy_num_def temperature_clamped_contract
      parseFloat_limits in_range_def)

text \<open>
  Claim C2 holds for the variant of the plugin that checks the range, and not for the
  function with the stores: there \<^verbatim>\<open>parseFloat(temperature) || 0.65\<close> sends 0.65 for
  \<^verbatim>\<open>""\<close> and \<^verbatim>\<open>"abc"\<close> and 1.5 for \<^verbatim>\<open>"1.5"\<close>, but it sends 5 for \<^verbatim>\<open>"5"\<close>, which is outside
  \<open>[0, 2)\<close>, and 0.65 for \<^verbatim>\<open>"0"\<close>, which is inside. The Number 0.65 is the double nearest
  to 0.65.
\<close>

theorem C2_request_temperature_is_not_clamped:
  "req_temperature (build_request (cfg\<lparr>temperature := Str []\<rparr>) text fromL toL matched) = binary64 0.65 \<and>
   req_temperature (build_request (cfg\<lparr>temperature := Str (ascii ''abc'')\<rparr>) text fromL toL matched) = binary64 0.65 \<and>
   req_temperature (build_request (cfg\<lparr>temperature := Str (ascii ''1.5'')\<rparr>) text fromL toL matched) = Num 1.5 \<and>
   req_temperature (build_request (cfg\<lparr>temperature := Str (ascii ''5'')\<rparr>) text fromL toL matched) = Num 5 \<and>
   req_temperature (build_request (cfg\<lparr>temperature := Str (ascii ''0'')\<rparr>) text fromL toL matched) = binary64 0.65 \<and>
   temperature_clamped (Str (ascii ''5'')) = binary64 0.65 \<and>
   temperature_clamped (Str (ascii ''0'')) = Num 0 \<and>
   binary64 0.65 = Num (5854679515581645 / 2 ^ 53)"
  by (simp add: build_request_def temperature_of_def falsy_num_def temperature_clamped_def
      in_range_def parseFloat_defs binary64_values)

lemma execute_fields [simp]:
  "exec_fails (snd (execute db st w)) = exec_fails w"
  "trace (snd (execute db st w)) = trace w @ [Exec db st]"
  by (simp_all add: execute_def emit_def)


lemma migrate_exec_fails: "exec_fails (snd (migrate db ts n w)) = exec_fails w"
  using quiet_exec_fails [OF quiet_migrate] by simp


lemma migrated_store_nil [simp]: "migrated_store fails [] d = d"
  by (simp add: migrated_store_def)





lemma migrate_entry_translations:
  "translations_tbl (migrate_entry fails d t) = translations_tbl d"
  by (simp add: migrate_entry_def)



lemma migrated_store_cons:
  "migrated_store fails (t # ts) d = migrated_store fails ts (migrate_entry fails d t)"
  by (simp add: migrated_store_def)

lemma migrated_store_translations:
  "translations_tbl (migrated_store fails ts d) = translations_tbl d"
  by (induction ts arbitrary: d) (simp_all add: migrated_store_cons migrate_entry_translations)













lemma later_event:
  "trace b = trace a @ x \<Longrightarrow> trace c = trace b @ y \<Longrightarrow> e \<in> set (events_since b c) \<Longrightarrow>
   e \<in> set (events_since a c)"
  by (simp add: events_since_def)

lemma earlier_event:
  "trace b = trace a @ x \<Longrightarrow> trace c = trace b @ y \<Longrightarrow> e \<in> set (events_since a b) \<Longrightarrow>
   e \<in> set (events_since a c)"
  by (simp add: events_since_def)

lemma open_terms_appends:
  "\<exists>x. trace (snd (open_terms termsDb needMigration jsonTerms w)) = trace w @ x"
  by (rule quiet_appends [OF quiet_open_after [OF quiet_refl]])

lemma detect_legacy_appends: "\<exists>x. trace (snd (detect_legacy path w)) = trace w @ x"
  by (rule quiet_appends [OF quiet_detect_after [OF quiet_refl]])

lemma detect_legacy_no_check:
  "exists w path = None \<Longrightarrow>
   Warn TermsCheckFailed \<in> set (events_since w (snd (detect_legacy path w)))"
  by (simp add: detect_legacy_def check_exists_def emit_def events_since_def)

lemma open_terms_no_load:
  "load_fails w termsDb \<Longrightarrow>
   Warn TermsConnectFailed \<in> set (events_since w (snd (open_terms termsDb needMigration jsonTerms w)))"
  by (simp add: open_terms_def Database_load_def emit_def events_since_def Let_def)

lemma open_terms_no_schema:
  "\<not> load_fails w termsDb \<Longrightarrow> exec_fails w termsDb CreateTerms \<Longrightarrow>
   Warn TermsInitFailed \<in> set (events_since w (snd (open_terms termsDb needMigration jsonTerms w)))"
  by (simp add: open_terms_def Database_load_def execute_def emit_def events_since_def Let_def)

lemma open_terms_handle:
  "\<not> load_fails w termsDb \<Longrightarrow> \<not> exec_fails w termsDb CreateTerms \<Longrightarrow>
   fst (open_terms termsDb needMigration jsonTerms w) = Some termsDb"
  by (simp add: open_terms_def Database_load_def execute_def emit_def split_beta Let_def)

text \<open>The section in three steps, when the path resolves.\<close>

lemma load_terms_steps:
  assumes c: "configured (termsFile cfg)"
    and p: "fst (resolvePath (termsFile cfg) v) = Some q"
  shows "\<exists>v1 v2 n j x y.
     load_terms cfg v = open_terms (db_url q) n j v2 \<and>
     v2 = snd (detect_legacy (str_of q) v1) \<and>
     same_env v v1 \<and> same_env v v2 \<and>
     trace v1 = trace v @ x \<and> trace v2 = trace v1 @ y"
proof -
  let ?v1 = "snd (resolvePath (termsFile cfg) v)"
  let ?v2 = "snd (detect_legacy (str_of q) ?v1)"
  have l: "load_terms cfg v = open_terms (db_url q) (fst (fst (detect_legacy (str_of q) ?v1)))
      (snd (fst (detect_legacy (str_of q) ?v1))) ?v2"
    using c p by (simp add: load_terms_def split_beta Let_def)
  have a: "same_env v ?v1"
    by (rule quiet_same_env [OF quiet_resolvePath])
  have b: "same_env v ?v2"
    by (rule quiet_same_env [OF quiet_detect_after [OF quiet_resolvePath]])
  obtain x where x: "trace ?v1 = trace v @ x"
    using quiet_appends [OF quiet_resolvePath] by blast
  obtain y where y: "trace ?v2 = trace ?v1 @ y"
    using detect_legacy_appends by blast
  from l a b x y show ?thesis
    by blast
qed

lemma load_terms_no_path:
  "configured (termsFile cfg) \<Longrightarrow> fst (resolvePath (termsFile cfg) v) = None \<Longrightarrow>
   Warn TermsInitFailed \<in> set (events_since v (snd (load_terms cfg v)))"
  by (simp add: load_terms_def split_beta resolvePath_world emit_def events_since_def)

lemma load_terms_no_check:
  assumes c: "configured (termsFile cfg)"
    and p: "fst (resolvePath (termsFile cfg) v) = Some q"
    and e: "exists v (str_of q) = None"
  shows "Warn TermsCheckFailed \<in> set (events_since v (snd (load_terms cfg v)))"
proof -
  obtain v1 v2 n j x y where s: "load_terms cfg v = open_terms (db_url q) n j v2"
    "v2 = snd (detect_legacy (str_of q) v1)" "same_env v v1" "same_env v v2"
    "trace v1 = trace v @ x" "trace v2 = trace v1 @ y"
    using load_terms_steps [OF c p] by blast
  obtain z where z: "trace (snd (load_terms cfg v)) = trace v2 @ z"
    using open_terms_appends [of "db_url q" n j v2] by (auto simp: s(1))
  have "exists v1 (str_of q) = None"
    using e s(3) by (simp add: same_env_def)
  then have "Warn TermsCheckFailed \<in> set (events_since v1 v2)"
    unfolding s(2) by (rule detect_legacy_no_check)
  then have "Warn TermsCheckFailed \<in> set (events_since v1 (snd (load_terms cfg v)))"
    by (rule earlier_event [OF s(6) z])
  then show ?thesis
    by (rule later_event [OF s(5) _, rotated]) (simp add: z s(6))
qed

lemma load_terms_no_load:
  assumes c: "configured (termsFile cfg)"
    and p: "fst (resolvePath (termsFile cfg) v) = Some q"
    and e: "load_fails v (db_url q)"
  shows "Warn TermsConnectFailed \<in> set (events_since v (snd (load_terms cfg v)))"
proof -
  obtain v1 v2 n j x y where s: "load_terms cfg v = open_terms (db_url q) n j v2"
    "v2 = snd (detect_legacy (str_of q) v1)" "same_env v v1" "same_env v v2"
    "trace v1 = trace v @ x" "trace v2 = trace v1 @ y"
    using load_terms_steps [OF c p] by blast
  obtain z where z: "trace (snd (load_terms cfg v)) = trace v2 @ z"
    using open_terms_appends [of "db_url q" n j v2] by (auto simp: s(1))
  have "load_fails v2 (db_url q)"
    using e s(4) by (simp add: same_env_def)
  then have "Warn TermsConnectFailed \<in> set (events_since v2 (snd (load_terms cfg v)))"
    unfolding s(1) by (rule open_terms_no_load)
  then show ?thesis
    using z by (simp add: events_since_def s(5) s(6))
qed

lemma load_terms_no_schema:
  assumes c: "configured (termsFile cfg)"
    and p: "fst (resolvePath (termsFile cfg) v) = Some q"
    and l: "\<not> load_fails v (db_url q)"
    and e: "exec_fails v (db_url q) CreateTerms"
  shows "Warn TermsInitFailed \<in> set (events_since v (snd (load_terms cfg v)))"
proof -
  obtain v1 v2 n j x y where s: "load_terms cfg v = open_terms (db_url q) n j v2"
    "v2 = snd (detect_legacy (str_of q) v1)" "same_env v v1" "same_env v v2"
    "trace v1 = trace v @ x" "trace v2 = trace v1 @ y"
    using load_terms_steps [OF c p] by blast
  obtain z where z: "trace (snd (load_terms cfg v)) = trace v2 @ z"
    using open_terms_appends [of "db_url q" n j v2] by (auto simp: s(1))
  have "\<not> load_fails v2 (db_url q)" "exec_fails v2 (db_url q) CreateTerms"
    using l e s(4) by (simp_all add: same_env_def)
  then have "Warn TermsInitFailed \<in> set (events_since v2 (snd (load_terms cfg v)))"
    unfolding s(1) by (rule open_terms_no_schema)
  then show ?thesis
    using z by (simp add: events_since_def s(5) s(6))
qed

lemma load_terms_handle:
  assumes c: "configured (termsFile cfg)"
    and p: "fst (resolvePath (termsFile cfg) v) = Some q"
    and l: "\<not> load_fails v (db_url q)"
    and e: "\<not> exec_fails v (db_url q) CreateTerms"
  shows "fst (load_terms cfg v) = Some (db_url q)"
proof -
  obtain v1 v2 n j x y where s: "load_terms cfg v = open_terms (db_url q) n j v2"
    "v2 = snd (detect_legacy (str_of q) v1)" "same_env v v1" "same_env v v2"
    "trace v1 = trace v @ x" "trace v2 = trace v1 @ y"
    using load_terms_steps [OF c p] by blast
  have "\<not> load_fails v2 (db_url q)" "\<not> exec_fails v2 (db_url q) CreateTerms"
    using l e s(4) by (simp_all add: same_env_def)
  then show ?thesis
    unfolding s(1) by (rule open_terms_handle)
qed

lemma match_terms_no_select:
  "exec_fails v h SelectTerms \<Longrightarrow>
   Warn TermsMatchFailed \<in> set (events_since v (snd (match_terms U (Some h) text v)))"
  by (simp add: match_terms_def select_terms_def emit_def events_since_def)






lemmas legacy_defs = legacy_file_def world_legacy_def cfg_terms_def terms_db0_def cpu_def


lemmas terms_stage_defs = load_terms_def detect_legacy_def open_terms_def match_terms_def
  check_exists_def read_legacy_def select_terms_def


lemmas failure_worlds = world_unreadable_def world_unparsable_def world_noinsert_def
  refusal_def world_refused_def

lemmas all_run_defs = translate_def cache_defs online_def prepare_def terms_stage_defs
  build_request_def write_back_def normalize_response_def content_of_def sentinel_def

text \<open>
  Claim C3, as stated, fails: not every file failure is turned into a warning. When the
  term file exists and reading it throws, or its content is not JSON, or an insert of the
  migration throws, the failure is caught by an empty handler: the call goes on, returns
  the translation, and logs no warning at all.
\<close>

theorem C3_counterexample:
  "readTextFile world_unreadable (ascii ''/c/terms.json'') = None \<and>
   ReadTextFile (ascii ''/c/terms.json'') \<in>
     set (trace (snd (translate U0 hello en zh cfg_terms world_unreadable))) \<and>
   \<not> list_ex is_warning (trace (snd (translate U0 hello en zh cfg_terms world_unreadable))) \<and>
   fst (translate U0 hello en zh cfg_terms world_unreadable) = Inr nihao \<and>
   json_parse world_unparsable (ascii ''SQLite'') = None \<and>
   \<not> list_ex is_warning (trace (snd (translate U0 hello en zh cfg_terms world_unparsable))) \<and>
   exec_fails world_noinsert terms_db0 (InsertTerm cpu chuliqi) \<and>
   Exec terms_db0 (InsertTerm cpu chuliqi) \<in>
     set (trace (snd (translate U0 hello en zh cfg_terms world_noinsert))) \<and>
   \<not> list_ex is_warning (trace (snd (translate U0 hello en zh cfg_terms world_noinsert)))"
  by (simp add: all_run_defs failure_worlds legacy_defs example_defs chuliqi_def
      split_beta Let_def)

text \<open>The end of the online part when the provider refuses, and when the write fails.\<close>

lemma online_refused:
  assumes "fetch w (fst (prepare U cfg text fromL toL w)) = Some res" "\<not> ok res"
  shows "snd (online U cfg text fromL toL db w) =
    emit (Error (ApiFailed (status res) (data res)))
      (emit (Fetch (fst (prepare U cfg text fromL toL w))) (snd (prepare U cfg text fromL toL w)))"
  using assms quiet_fetch [OF quiet_prepare]
  by (simp add: online_def split_beta Let_def emit_def)

lemma online_write_failed:
  assumes "fetch w (fst (prepare U cfg text fromL toL w)) = Some res" "ok res"
    and "normalize_response (data res) \<noteq> []"
    and "exec_fails w h (ReplaceTranslation text fromL toL (normalize_response (data res)))"
  shows "Warn CacheWriteFailed \<in> set (events_since (snd (prepare U cfg text fromL toL w))
      (snd (online U cfg text fromL toL (Some h) w)))"
  using assms quiet_fetch [OF quiet_prepare] quiet_exec_fails [OF quiet_prepare]
  by (simp add: online_def split_beta Let_def write_back_failed emit_def events_since_def)

lemma translate_refused:
  assumes on: "fst (cache_lookup cfg text fromL toL w) = Online db"
    and f: "fetch w (request_of U text fromL toL cfg w) = Some res" "\<not> ok res"
  shows "Error (ApiFailed (status res) (data res)) \<in>
    set (events_since w (snd (translate U text fromL toL cfg w)))"
proof -
  let ?wc = "snd (cache_lookup cfg text fromL toL w)"
  have g: "fetch ?wc (fst (prepare U cfg text fromL toL ?wc)) = Some res"
    using f(1) by (simp add: request_of_def cache_lookup_fetch)
  have "Error (ApiFailed (status res) (data res)) \<in>
      set (events_since (snd (prepare U cfg text fromL toL ?wc))
        (snd (translate U text fromL toL cfg w)))"
    by (simp add: translate_online [OF on] online_refused [OF g f(2)] emit_def events_since_def)
  then show ?thesis
    by (rule tail_event_of_call [OF on])
qed

lemma translate_write_failed:
  assumes on: "fst (cache_lookup cfg text fromL toL w) = Online (Some h)"
    and f: "fetch w (request_of U text fromL toL cfg w) = Some res" "ok res"
      "normalize_response (data res) \<noteq> []"
      "exec_fails w h (ReplaceTranslation text fromL toL (normalize_response (data res)))"
  shows "Warn CacheWriteFailed \<in> set (events_since w (snd (translate U text fromL toL cfg w)))"
proof -
  let ?wc = "snd (cache_lookup cfg text fromL toL w)"
  have e: "same_env w ?wc"
    by (rule only_logs_same_env [OF only_logs_cache_lookup])
  have g: "fetch ?wc (fst (prepare U cfg text fromL toL ?wc)) = Some res"
    using f(1) by (simp add: request_of_def cache_lookup_fetch)
  have x: "exec_fails ?wc h (ReplaceTranslation text fromL toL (normalize_response (data res)))"
    using f(4) e by (simp add: same_env_def)
  have "Warn CacheWriteFailed \<in>
      set (events_since (snd (prepare U cfg text fromL toL ?wc))
        (snd (translate U text fromL toL cfg w)))"
    using online_write_failed [OF g f(2) f(3) x] by (simp add: translate_online [OF on])
  then show ?thesis
    by (rule tail_event_of_call [OF on])
qed

text \<open>A failure of the cache store is logged.\<close>

lemma cache_failure_logged:
  assumes cfgd: "configured (databaseFile cfg)"
    and broken: "fst (resolvePath (databaseFile cfg) w) = None \<or>
      (\<exists>p. fst (resolvePath (databaseFile cfg) w) = Some p \<and>
         (load_fails w (db_url p) \<or> exec_fails w (db_url p) CreateTranslations \<or>
          (\<not> forceOnlineBool cfg \<and> exec_fails w (db_url p) (SelectTranslation text fromL toL))))"
  shows "Warn DatabaseError \<in> set (events_since w (snd (cache_lookup cfg text fromL toL w)))"
proof -
  have a: ?thesis if "fst (resolvePath (databaseFile cfg) w) = None"
    using cache_lookup_no_path [OF cfgd that, of "text" fromL toL]
    by (simp add: events_since_def)
  have b: ?thesis
    if "fst (resolvePath (databaseFile cfg) w) = Some p" "load_fails w (db_url p)" for p
    using cache_lookup_no_load [OF cfgd that, of "text" fromL toL]
    by (simp add: events_since_def)
  have c: ?thesis
    if "fst (resolvePath (databaseFile cfg) w) = Some p" "\<not> load_fails w (db_url p)"
      "exec_fails w (db_url p) CreateTranslations" for p
    using cache_lookup_no_schema [OF cfgd that, of "text" fromL toL]
    by (simp add: events_since_def)
  have d: ?thesis
    if "fst (resolvePath (databaseFile cfg) w) = Some p" "\<not> load_fails w (db_url p)"
      "\<not> exec_fails w (db_url p) CreateTranslations" "\<not> forceOnlineBool cfg"
      "exec_fails w (db_url p) (SelectTranslation text fromL toL)" for p
    using cache_lookup_no_select [OF cfgd that(4,1,2,3,5)]
    by (simp add: events_since_def)
  from broken show ?thesis
  proof (elim disjE exE conjE)
    assume "fst (resolvePath (databaseFile cfg) w) = None"
    then show ?thesis by (rule a)
  next
    fix p
    assume "fst (resolvePath (databaseFile cfg) w) = Some p" "load_fails w (db_url p)"
    then show ?thesis by (rule b)
  next
    fix p
    assume p: "fst (resolvePath (databaseFile cfg) w) = Some p"
      and e: "exec_fails w (db_url p) CreateTranslations"
    show ?thesis
      using b [OF p] c [OF p _ e] by blast
  next
    fix p
    assume p: "fst (resolvePath (databaseFile cfg) w) = Some p"
      and f: "\<not> forceOnlineBool cfg"
      and e: "exec_fails w (db_url p) (SelectTranslation text fromL toL)"
    show ?thesis
      using b [OF p] c [OF p] d [OF p _ _ f e] by blast
  qed
qed

text \<open>The failures of the term store, seen from the start of the call.\<close>

lemma terms_failure_logged:
  assumes on: "fst (cache_lookup cfg text fromL toL w) = Online db"
    and c: "configured (termsFile cfg)"
  shows "(fst (resolvePath (termsFile cfg) w) = None \<longrightarrow>
       Warn TermsInitFailed \<in> set (events_since w (snd (translate U text fromL toL cfg w)))) \<and>
    (\<forall>q. fst (resolvePath (termsFile cfg) w) = Some q \<longrightarrow>
       (exists w (str_of q) = None \<longrightarrow>
          Warn TermsCheckFailed \<in> set (events_since w (snd (translate U text fromL toL cfg w)))) \<and>
       (load_fails w (db_url q) \<longrightarrow>
          Warn TermsConnectFailed \<in> set (events_since w (snd (translate U text fromL toL cfg w)))) \<and>
       (\<not> load_fails w (db_url q) \<and> exec_fails w (db_url q) CreateTerms \<longrightarrow>
          Warn TermsInitFailed \<in> set (events_since w (snd (translate U text fromL toL cfg w)))) \<and>
       (\<not> load_fails w (db_url q) \<and> \<not> exec_fails w (db_url q) CreateTerms \<and>
        exec_fails w (db_url q) SelectTerms \<longrightarrow>
          Warn TermsMatchFailed \<in> set (events_since w (snd (translate U text fromL toL cfg w)))))"
proof -
  let ?wc = "snd (cache_lookup cfg text fromL toL w)"
  let ?wl = "snd (load_terms cfg ?wc)"
  have e: "same_env w ?wc"
    by (rule only_logs_same_env [OF only_logs_cache_lookup])
  have p: "fst (resolvePath (termsFile cfg) ?wc) = fst (resolvePath (termsFile cfg) w)"
    by (rule resolvePath_env [OF e])
  have env: "exists ?wc = exists w" "load_fails ?wc = load_fails w" "exec_fails ?wc = exec_fails w"
    using e by (simp_all add: same_env_def)
  have l: "exec_fails ?wl = exec_fails ?wc"
    by (rule quiet_exec_fails [OF quiet_load_terms_after [OF quiet_refl]])
  have 1: "Warn TermsInitFailed \<in> set (events_since w (snd (translate U text fromL toL cfg w)))"
    if "fst (resolvePath (termsFile cfg) w) = None"
    using that by (intro terms_event_of_call [OF on] load_terms_no_path [OF c]) (simp add: p)
  have 2: "Warn TermsCheckFailed \<in> set (events_since w (snd (translate U text fromL toL cfg w)))"
    if "fst (resolvePath (termsFile cfg) w) = Some q" "exists w (str_of q) = None" for q
    using that
    by (intro terms_event_of_call [OF on] load_terms_no_check [OF c, of _ q]) (simp_all add: p env)
  have 3: "Warn TermsConnectFailed \<in> set (events_since w (snd (translate U text fromL toL cfg w)))"
    if "fst (resolvePath (termsFile cfg) w) = Some q" "load_fails w (db_url q)" for q
    using that
    by (intro terms_event_of_call [OF on] load_terms_no_load [OF c, of _ q]) (simp_all add: p env)
  have 4: "Warn TermsInitFailed \<in> set (events_since w (snd (translate U text fromL toL cfg w)))"
    if "fst (resolvePath (termsFile cfg) w) = Some q" "\<not> load_fails w (db_url q)"
      "exec_fails w (db_url q) CreateTerms" for q
    using that
    by (intro terms_event_of_call [OF on] load_terms_no_schema [OF c, of _ q]) (simp_all add: p env)
  have 5: "Warn TermsMatchFailed \<in> set (events_since w (snd (translate U text fromL toL cfg w)))"
    if q: "fst (resolvePath (termsFile cfg) w) = Some q" "\<not> load_fails w (db_url q)"
      "\<not> exec_fails w (db_url q) CreateTerms" "exec_fails w (db_url q) SelectTerms" for q
  proof -
    have h: "fst (load_terms cfg ?wc) = Some (db_url q)"
      using q by (intro load_terms_handle [OF c]) (simp_all add: p env)
    have x: "exec_fails ?wl (db_url q) SelectTerms"
      using q(4) by (simp add: l env)
    have "Warn TermsMatchFailed \<in> set (events_since ?wl
        (snd (match_terms U (Some (db_url q)) text ?wl)))"
      using x by (rule match_terms_no_select)
    then have "Warn TermsMatchFailed \<in> set (events_since ?wl
        (snd (prepare U cfg text fromL toL ?wc)))"
      by (simp add: prepare_def split_beta h)
    then show ?thesis
      by (rule match_event_of_call [OF on])
  qed
  from 1 2 3 4 5 show ?thesis
    by blast
qed

text \<open>An error of the call is an error of the remote call.\<close>

lemma translate_error_is_remote:
  assumes "fst (translate U text fromL toL cfg w) = Inl e"
  shows "requests (snd (translate U text fromL toL cfg w)) =
      requests w @ [request_of U text fromL toL cfg w] \<and>
    (fetch w (request_of U text fromL toL cfg w) = None \<and> e = FetchRejected \<or>
     (\<exists>res. fetch w (request_of U text fromL toL cfg w) = Some res \<and> \<not> ok res \<and>
        e = ApiError (status res) (data res)))"
proof (cases "fst (cache_lookup cfg text fromL toL w)")
  case (CacheHit t)
  then show ?thesis
    using assms by (simp add: translate_hit)
next
  case (Online db)
  have "outcome (fetch w (request_of U text fromL toL cfg w)) = Inl e"
    using assms by (simp add: translate_online_result [OF Online])
  then have "fetch w (request_of U text fromL toL cfg w) = None \<and> e = FetchRejected \<or>
     (\<exists>res. fetch w (request_of U text fromL toL cfg w) = Some res \<and> \<not> ok res \<and>
        e = ApiError (status res) (data res))"
    by (auto simp: outcome_def split: option.splits if_splits)
  then show ?thesis
    by (simp add: translate_online_requests [OF Online])
qed

text \<open>
  Claim C3, amended. A response that is not ok ends the call with the error built from
  its status and its body, and the error is logged. An error of the call always comes from
  the remote call: the request was sent, and \<^verbatim>\<open>fetch\<close> rejected or the response was not ok.
  Unless the cache answers, exactly one request is sent and the caller gets the outcome of
  the remote call, whatever failed before. A warning is logged when the path of the cache
  store cannot be resolved, the store cannot be loaded, its table cannot be created or
  queried, or the translation cannot be written (the translation is still returned); and,
  unless the cache answers, when the path of the term store cannot be resolved, the
  existence check throws, the store cannot be loaded, its table cannot be created, or the
  terms cannot be read.
\<close>

theorem C3_only_the_remote_call_ends_the_call_in_error:
  fixes U s fromL toL cfg w and w' r req sect ev
  defines "w' \<equiv> snd (translate U s fromL toL cfg w)"
    and "r \<equiv> fst (translate U s fromL toL cfg w)"
    and "req \<equiv> request_of U s fromL toL cfg w"
    and "sect \<equiv> fst (cache_lookup cfg s fromL toL w)"
  defines "ev \<equiv> events_since w w'"
  shows
   "(\<forall>db res. sect = Online db \<and> fetch w req = Some res \<and> \<not> ok res \<longrightarrow>
       r = Inl (ApiError (status res) (data res)) \<and>
       Error (ApiFailed (status res) (data res)) \<in> set ev) \<and>
    (\<forall>e. r = Inl e \<longrightarrow>
       requests w' = requests w @ [req] \<and>
       (fetch w req = None \<and> e = FetchRejected \<or>
        (\<exists>res. fetch w req = Some res \<and> \<not> ok res \<and> e = ApiError (status res) (data res)))) \<and>
    (\<forall>db. sect = Online db \<longrightarrow>
       requests w' = requests w @ [req] \<and> r = outcome (fetch w req)) \<and>
    (configured (databaseFile cfg) \<longrightarrow>
       (fst (resolvePath (databaseFile cfg) w) = None \<longrightarrow> Warn DatabaseError \<in> set ev) \<and>
       (\<forall>p. fst (resolvePath (databaseFile cfg) w) = Some p \<and>
          (load_fails w (db_url p) \<or> exec_fails w (db_url p) CreateTranslations \<or>
           \<not> forceOnlineBool cfg \<and> exec_fails w (db_url p) (SelectTranslation s fromL toL)) \<longrightarrow>
          Warn DatabaseError \<in> set ev)) \<and>
    (\<forall>h res. sect = Online (Some h) \<and> fetch w req = Some res \<and> ok res \<and>
       normalize_response (data res) \<noteq> [] \<and>
       exec_fails w h (ReplaceTranslation s fromL toL (normalize_response (data res))) \<longrightarrow>
       Warn CacheWriteFailed \<in> set ev \<and> r = Inr (normalize_response (data res))) \<and>
    (\<forall>db. sect = Online db \<and> configured (termsFile cfg) \<longrightarrow>
       (fst (resolvePath (termsFile cfg) w) = None \<longrightarrow> Warn TermsInitFailed \<in> set ev) \<and>
       (\<forall>q. fst (resolvePath (termsFile cfg) w) = Some q \<longrightarrow>
          (exists w (str_of q) = None \<longrightarrow> Warn TermsCheckFailed \<in> set ev) \<and>
          (load_fails w (db_url q) \<longrightarrow> Warn TermsConnectFailed \<in> set ev) \<and>
          (\<not> load_fails w (db_url q) \<and> exec_fails w (db_url q) CreateTerms \<longrightarrow>
             Warn TermsInitFailed \<in> set ev) \<and>
          (\<not> load_fails w (db_url q) \<and> \<not> exec_fails w (db_url q) CreateTerms \<and>
           exec_fails w (db_url q) SelectTerms \<longrightarrow> Warn TermsMatchFailed \<in> set ev)))"
proof -
  have fatal: "r = Inl (ApiError (status res) (data res)) \<and>
      Error (ApiFailed (status res) (data res)) \<in> set ev"
    if "sect = Online db" "fetch w req = Some res" "\<not> ok res" for db res
    using that translate_refused [of cfg s fromL toL w db U res]
      translate_online_result [of cfg s fromL toL w db U]
    unfolding r_def ev_def w'_def req_def sect_def by (simp add: outcome_def)
  have only: "requests w' = requests w @ [req] \<and>
       (fetch w req = None \<and> e = FetchRejected \<or>
        (\<exists>res. fetch w req = Some res \<and> \<not> ok res \<and> e = ApiError (status res) (data res)))"
    if "r = Inl e" for e
    using that unfolding r_def w'_def req_def by (rule translate_error_is_remote)
  have goes_on: "requests w' = requests w @ [req] \<and> r = outcome (fetch w req)"
    if "sect = Online db" for db
    using that translate_online_requests [of cfg s fromL toL w db U]
      translate_online_result [of cfg s fromL toL w db U]
    unfolding r_def w'_def req_def sect_def by simp
  have cache: "Warn DatabaseError \<in> set ev"
    if "configured (databaseFile cfg)"
      "fst (resolvePath (databaseFile cfg) w) = None \<or>
       (\<exists>p. fst (resolvePath (databaseFile cfg) w) = Some p \<and>
         (load_fails w (db_url p) \<or> exec_fails w (db_url p) CreateTranslations \<or>
          (\<not> forceOnlineBool cfg \<and> exec_fails w (db_url p) (SelectTranslation s fromL toL))))"
    unfolding ev_def w'_def
    by (rule cache_event_of_call [OF cache_failure_logged [OF that]])
  have written: "Warn CacheWriteFailed \<in> set ev \<and> r = Inr (normalize_response (data res))"
    if "sect = Online (Some h)" "fetch w req = Some res" "ok res"
      "normalize_response (data res) \<noteq> []"
      "exec_fails w h (ReplaceTranslation s fromL toL (normalize_response (data res)))" for h res
    using that translate_write_failed [of cfg s fromL toL w h U res]
      translate_online_result [of cfg s fromL toL w "Some h" U]
    unfolding r_def ev_def w'_def req_def sect_def by (simp add: outcome_def)
  have terms: "(fst (resolvePath (termsFile cfg) w) = None \<longrightarrow> Warn TermsInitFailed \<in> set ev) \<and>
       (\<forall>q. fst (resolvePath (termsFile cfg) w) = Some q \<longrightarrow>
          (exists w (str_of q) = None \<longrightarrow> Warn TermsCheckFailed \<in> set ev) \<and>
          (load_fails w (db_url q) \<longrightarrow> Warn TermsConnectFailed \<in> set ev) \<and>
          (\<not> load_fails w (db_url q) \<and> exec_fails w (db_url q) CreateTerms \<longrightarrow>
             Warn TermsInitFailed \<in> set ev) \<and>
          (\<not> load_fails w (db_url q) \<and> \<not> exec_fails w (db_url q) CreateTerms \<and>
           exec_fails w (db_url q) SelectTerms \<longrightarrow> Warn TermsMatchFailed \<in> set ev))"
    if "sect = Online db" "configured (termsFile cfg)" for db
    using that(1) unfolding ev_def w'_def sect_def
    by (rule terms_failure_logged [OF _ that(2)])
  show ?thesis
  proof (intro conjI allI impI)
    show "\<And>db res. sect = Online db \<and> fetch w req = Some res \<and> \<not> ok res \<Longrightarrow>
        r = Inl (ApiError (status res) (data res))"
      using fatal by blast
    show "\<And>db res. sect = Online db \<and> fetch w req = Some res \<and> \<not> ok res \<Longrightarrow>
        Error (ApiFailed (status res) (data res)) \<in> set ev"
      using fatal by blast
  qed (use only goes_on cache written terms in blast)+
qed

lemmas outage_defs = cfg_both_def world_nojoin_def world_down_def world_noterms_def
  world_nowrite_def

theorem C3_witness:
  "fst (translate U0 hello en zh cfg0 world_refused) = Inl (ApiError 401 None) \<and>
   Error (ApiFailed 401 None) \<in> set (trace (snd (translate U0 hello en zh cfg0 world_refused))) \<and>
   requests (snd (translate U0 hello en zh cfg0 world_refused)) =
     [request_of U0 hello en zh cfg0 world_refused] \<and>
   Warn DatabaseError \<in> set (trace (snd (translate U0 hello en zh cfg_both world_nojoin))) \<and>
   Warn TermsInitFailed \<in> set (trace (snd (translate U0 hello en zh cfg_both world_nojoin))) \<and>
   Warn DatabaseError \<in> set (trace (snd (translate U0 hello en zh cfg_both world_down))) \<and>
   Warn TermsCheckFailed \<in> set (trace (snd (translate U0 hello en zh cfg_both world_down))) \<and>
   Warn TermsConnectFailed \<in> set (trace (snd (translate U0 hello en zh cfg_both world_down))) \<and>
   Warn TermsInitFailed \<in> set (trace (snd (translate U0 hello en zh cfg_terms world_noterms))) \<and>
   Warn TermsMatchFailed \<in> set (trace (snd (translate U0 hello en zh cfg_both world_nowrite))) \<and>
   Warn CacheWriteFailed \<in> set (trace (snd (translate U0 hello en zh cfg_both world_nowrite))) \<and>
   fst (translate U0 hello en zh cfg_both world_nowrite) = Inr nihao"
proof -
  have c: "configured (databaseFile cfg0)" "configured (databaseFile cfg_both)"
    "configured (termsFile cfg_both)" "configured (termsFile cfg_terms)"
    "\<not> configured (databaseFile cfg_terms)" "\<not> forceOnlineBool cfg_both"
    by (simp_all add: configured_def forceOnlineBool_def outage_defs cfg_terms_def cfg0_def
        trim_def is_space_def ascii_def)
  have n: "normalize_response (data (reply (Str nihao))) = nihao" "nihao \<noteq> []"
    by (simp_all add: normalize_response_defs reply_def nihao_def)
  have refused: "fst (cache_lookup cfg0 hello en zh world_refused) = Online (Some db0)"
    "fetch world_refused q = Some refusal" "\<not> ok refusal" "status refusal = 401"
    "data refusal = None" "trace world_refused = []" "requests world_refused = []" for q
    by (simp_all add: cache_defs example_defs failure_worlds requests_def split_beta Let_def)
  have nojoin: "fst (cache_lookup cfg_both hello en zh world_nojoin) = Online None"
    "fst (resolvePath (databaseFile cfg_both) world_nojoin) = None"
    "fst (resolvePath (termsFile cfg_both) world_nojoin) = None"
    "trace world_nojoin = []"
    by (simp_all add: cache_defs example_defs outage_defs split_beta Let_def)
  have down: "fst (cache_lookup cfg_both hello en zh world_down) = Online None"
    "fst (resolvePath (databaseFile cfg_both) world_down) = Some (Str (ascii ''/c/cache.db''))"
    "fst (resolvePath (termsFile cfg_both) world_down) = Some (Str (ascii ''/c/terms.json''))"
    "exists world_down p = None" "load_fails world_down d" "trace world_down = []" for p d
    by (simp_all add: cache_defs example_defs outage_defs split_beta Let_def)
  have noterms: "fst (cache_lookup cfg_terms hello en zh world_noterms) = Online None"
    "fst (resolvePath (termsFile cfg_terms) world_noterms) = Some (Str (ascii ''/c/terms.json''))"
    "\<not> load_fails world_noterms d" "exec_fails world_noterms d CreateTerms"
    "trace world_noterms = []" for d
    by (simp_all add: cache_defs example_defs outage_defs cfg_terms_def split_beta Let_def)
  have nowrite: "fst (cache_lookup cfg_both hello en zh world_nowrite) = Online (Some db0)"
    "fst (resolvePath (termsFile cfg_both) world_nowrite) = Some (Str (ascii ''/c/terms.json''))"
    "fetch world_nowrite q = Some (reply (Str nihao))" "ok (reply (Str nihao))"
    "\<not> load_fails world_nowrite d" "\<not> exec_fails world_nowrite d CreateTerms"
    "exec_fails world_nowrite d SelectTerms"
    "exec_fails world_nowrite d (ReplaceTranslation hello en zh nihao)"
    "trace world_nowrite = []" for q d
    by (simp_all add: cache_defs example_defs outage_defs split_beta Let_def)
  note refused_call =
    C3_only_the_remote_call_ends_the_call_in_error [of cfg0 hello en zh world_refused U0]
  note nojoin_call =
    C3_only_the_remote_call_ends_the_call_in_error [of cfg_both hello en zh world_nojoin U0]
  note down_call =
    C3_only_the_remote_call_ends_the_call_in_error [of cfg_both hello en zh world_down U0]
  note noterms_call =
    C3_only_the_remote_call_ends_the_call_in_error [of cfg_terms hello en zh world_noterms U0]
  note nowrite_call =
    C3_only_the_remote_call_ends_the_call_in_error [of cfg_both hello en zh world_nowrite U0]
  have 1: "fst (translate U0 hello en zh cfg0 world_refused) = Inl (ApiError 401 None) \<and>
     Error (ApiFailed 401 None) \<in> set (trace (snd (translate U0 hello en zh cfg0 world_refused)))"
    using refused_call [THEN conjunct1, rule_format, of "Some db0" refusal]
    by (simp add: refused events_since_def)
  then have 2: "requests (snd (translate U0 hello en zh cfg0 world_refused)) =
       [request_of U0 hello en zh cfg0 world_refused]"
    using refused_call [THEN conjunct2, THEN conjunct1, rule_format, of "ApiError 401 None"]
    by (simp add: refused)
  have 3: "Warn DatabaseError \<in> set (trace (snd (translate U0 hello en zh cfg_both world_nojoin)))"
    using nojoin_call [THEN conjunct2, THEN conjunct2, THEN conjunct2, THEN conjunct1]
    by (simp add: nojoin c events_since_def)
  have 4: "Warn TermsInitFailed \<in> set (trace (snd (translate U0 hello en zh cfg_both world_nojoin)))"
    using nojoin_call [THEN conjunct2, THEN conjunct2, THEN conjunct2, THEN conjunct2,
        THEN conjunct2, rule_format, of None]
    by (simp add: nojoin c events_since_def)
  have 5: "Warn DatabaseError \<in> set (trace (snd (translate U0 hello en zh cfg_both world_down)))"
    using down_call [THEN conjunct2, THEN conjunct2, THEN conjunct2, THEN conjunct1]
    by (simp add: down c events_since_def)
  have 6: "Warn TermsCheckFailed \<in> set (trace (snd (translate U0 hello en zh cfg_both world_down))) \<and>
     Warn TermsConnectFailed \<in> set (trace (snd (translate U0 hello en zh cfg_both world_down)))"
    using down_call [THEN conjunct2, THEN conjunct2, THEN conjunct2, THEN conjunct2,
        THEN conjunct2, rule_format, of None]
    by (simp add: down c events_since_def)
  have 7: "Warn TermsInitFailed \<in> set (trace (snd (translate U0 hello en zh cfg_terms world_noterms)))"
    using noterms_call [THEN conjunct2, THEN conjunct2, THEN conjunct2, THEN conjunct2,
        THEN conjunct2, rule_format, of None]
    by (simp add: noterms c events_since_def)
  have 8: "Warn TermsMatchFailed \<in> set (trace (snd (translate U0 hello en zh cfg_both world_nowrite)))"
    using nowrite_call [THEN conjunct2, THEN conjunct2, THEN conjunct2, THEN conjunct2,
        THEN conjunct2, rule_format, of "Some db0"]
    by (simp add: nowrite c events_since_def)
  have 9: "Warn CacheWriteFailed \<in> set (trace (snd (translate U0 hello en zh cfg_both world_nowrite))) \<and>
     fst (translate U0 hello en zh cfg_both world_nowrite) = Inr nihao"
    using nowrite_call [THEN conjunct2, THEN conjunct2, THEN conjunct2, THEN conjunct2,
        THEN conjunct1, rule_format, of db0 "reply (Str nihao)"]
    by (simp add: nowrite n events_since_def)
  from 1 2 3 4 5 6 7 8 9 show ?thesis
    by simp
qed

end
